theory Spec2Isabelle
  imports Main
begin


section \<open>Vectors and boxes\<close>

text \<open>
  World coordinates are Python integers, modelled as \<open>int\<close>. A vector is the triple
  \<open>(x, y, z)\<close>. Python's \<open>a << 4\<close> is \<open>push_bit 4 a\<close> and \<open>a >> 4\<close> is
  \<open>drop_bit 4 a\<close> (rounding towards minus infinity, as Python does).
\<close>

type_synonym Vector = "int \<times> int \<times> int"

definition vadd :: "Vector \<Rightarrow> Vector \<Rightarrow> Vector" where
  "vadd a b = (case a of (ax, ay, az) \<Rightarrow> case b of (bx, by, bz) \<Rightarrow> (ax + bx, ay + by, az + bz))"

definition vsub :: "Vector \<Rightarrow> Vector \<Rightarrow> Vector" where
  "vsub a b = (case a of (ax, ay, az) \<Rightarrow> case b of (bx, by, bz) \<Rightarrow> (ax - bx, ay - by, az - bz))"

text \<open>
  Modelled from the spec: the class \<open>BoundingBox\<close> of \<open>mceditlib.selection\<close> is not
  among the source files. The spec describes it as an arbitrary-origin axis-aligned
  integer volume that supports intersection, per-axis size, chunk and section
  decomposition iterators and point containment. A box is its origin and its size; its
  maximum is exclusive.
\<close>

record BoundingBox =
  origin :: Vector
  size :: Vector

definition minx :: "'a BoundingBox_scheme \<Rightarrow> int" where
  "minx b = fst (origin b)"

definition miny :: "'a BoundingBox_scheme \<Rightarrow> int" where
  "miny b = fst (snd (origin b))"

definition minz :: "'a BoundingBox_scheme \<Rightarrow> int" where
  "minz b = snd (snd (origin b))"

definition maxx :: "'a BoundingBox_scheme \<Rightarrow> int" where
  "maxx b = minx b + fst (size b)"

definition maxy :: "'a BoundingBox_scheme \<Rightarrow> int" where
  "maxy b = miny b + fst (snd (size b))"

definition maxz :: "'a BoundingBox_scheme \<Rightarrow> int" where
  "maxz b = minz b + snd (snd (size b))"

definition volume :: "'a BoundingBox_scheme \<Rightarrow> int" where
  "volume b = fst (size b) * fst (snd (size b)) * snd (snd (size b))"

definition ZeroBox :: BoundingBox where
  "ZeroBox = \<lparr>origin = (0, 0, 0), size = (0, 0, 0)\<rparr>"

text \<open>
  Modelled from the spec: the area two boxes have in common; a box of zero volume when
  they have none.
\<close>

definition intersect :: "'a BoundingBox_scheme \<Rightarrow> 'b BoundingBox_scheme \<Rightarrow> BoundingBox" where
  "intersect a b =
     (let lo = (max (minx a) (minx b), max (miny a) (miny b), max (minz a) (minz b));
          hi = (min (maxx a) (maxx b), min (maxy a) (maxy b), min (maxz a) (maxz b));
          sz = vsub hi lo
      in if fst sz \<le> 0 \<or> fst (snd sz) \<le> 0 \<or> snd (snd sz) \<le> 0 then ZeroBox
         else \<lparr>origin = lo, size = sz\<rparr>)"

definition mincx :: "'a BoundingBox_scheme \<Rightarrow> int" where
  "mincx b = drop_bit 4 (minx b)"

definition mincy :: "'a BoundingBox_scheme \<Rightarrow> int" where
  "mincy b = drop_bit 4 (miny b)"

definition mincz :: "'a BoundingBox_scheme \<Rightarrow> int" where
  "mincz b = drop_bit 4 (minz b)"

definition maxcx :: "'a BoundingBox_scheme \<Rightarrow> int" where
  "maxcx b = drop_bit 4 (maxx b - 1) + 1"

definition maxcy :: "'a BoundingBox_scheme \<Rightarrow> int" where
  "maxcy b = drop_bit 4 (maxy b - 1) + 1"

definition maxcz :: "'a BoundingBox_scheme \<Rightarrow> int" where
  "maxcz b = drop_bit 4 (maxz b - 1) + 1"

text \<open>
  Modelled from the spec: the chunk decomposition iterator (every chunk column the box
  touches, x outermost) and the section decomposition iterator of one chunk column.
\<close>

definition chunkPositions :: "'a BoundingBox_scheme \<Rightarrow> (int \<times> int) list" where
  "chunkPositions b =
     concat (map (\<lambda>cx. map (\<lambda>cz. (cx, cz)) [mincz b .. maxcz b - 1]) [mincx b .. maxcx b - 1])"

definition sectionPositions :: "'a BoundingBox_scheme \<Rightarrow> int \<Rightarrow> int \<Rightarrow> int list" where
  "sectionPositions b cx cz = [mincy b .. maxcy b - 1]"

definition chunkCount :: "'a BoundingBox_scheme \<Rightarrow> int" where
  "chunkCount b = (maxcx b - mincx b) * (maxcz b - mincz b)"

text \<open>
  Modelled from the spec: a \<open>SectionBox\<close> is the box of exactly one 16 x 16 x 16
  storage section, identified by its chunk and section coordinates.
\<close>

definition SectionBox :: "int \<Rightarrow> int \<Rightarrow> int \<Rightarrow> BoundingBox" where
  "SectionBox cx cy cz = \<lparr>origin = (push_bit 4 cx, push_bit 4 cy, push_bit 4 cz), size = (16, 16, 16)\<rparr>"

section \<open>Index ranges of one destination cell\<close>

text \<open>
  A Python \<open>slice(start, stop)\<close> is the pair \<open>(start, stop)\<close>; the arrays of a section
  are indexed \<open>[y, z, x]\<close>, so a triple of slices is in that order.
\<close>

type_synonym pyslice = "int \<times> int"
type_synonym slices = "pyslice \<times> pyslice \<times> pyslice"

text \<open>Lines 134 to 138 of \<open>copyBlocksIter\<close>.\<close>

definition destSlices :: "BoundingBox \<Rightarrow> int \<times> int \<Rightarrow> int \<Rightarrow> slices" where
  "destSlices ix destCpos destCy =
     ((miny ix - push_bit 4 destCy, maxy ix - push_bit 4 destCy),
      (minz ix - push_bit 4 (snd destCpos), maxz ix - push_bit 4 (snd destCpos)),
      (minx ix - push_bit 4 (fst destCpos), maxx ix - push_bit 4 (fst destCpos)))"

text \<open>Lines 140 to 145 of \<open>copyBlocksIter\<close>.\<close>

definition sourceIntersect :: "BoundingBox \<Rightarrow> Vector \<Rightarrow> BoundingBox" where
  "sourceIntersect ix copyOffset = \<lparr>origin = vsub (origin ix) copyOffset, size = size ix\<rparr>"

definition sourceSlices :: "BoundingBox \<Rightarrow> Vector \<Rightarrow> int \<times> int \<Rightarrow> int \<Rightarrow> slices" where
  "sourceSlices ix copyOffset sourceCpos sourceCy =
     (let si = sourceIntersect ix copyOffset
      in ((miny si - push_bit 4 sourceCy, maxy si - push_bit 4 sourceCy),
          (minz si - push_bit 4 (snd sourceCpos), maxz si - push_bit 4 (snd sourceCpos)),
          (minx si - push_bit 4 (fst sourceCpos), maxx si - push_bit 4 (fst sourceCpos))))"

text \<open>Lines 115 and 116: the box of the source section, moved by the copy offset.\<close>

definition sectionDestBox :: "int \<times> int \<Rightarrow> int \<Rightarrow> Vector \<Rightarrow> BoundingBox" where
  "sectionDestBox sourceCpos sourceCy copyOffset =
     (let sectionBox = SectionBox (fst sourceCpos) sourceCy (snd sourceCpos)
      in \<lparr>origin = vadd (origin sectionBox) copyOffset, size = size sectionBox\<rparr>)"

text \<open>Lines 125 and 126: the part of the moved source section inside one destination section.\<close>

definition cellIntersect :: "BoundingBox \<Rightarrow> int \<times> int \<Rightarrow> int \<Rightarrow> BoundingBox" where
  "cellIntersect destBox destCpos destCy =
     intersect (SectionBox (fst destCpos) destCy (snd destCpos)) destBox"

text \<open>
  What NumPy makes of \<open>a[start:stop]\<close> on an axis of length \<open>n\<close>: a negative bound
  counts from the end, both bounds are clipped to the axis; the result is the first
  index and the number of indices.
\<close>

definition slice_indices :: "nat \<Rightarrow> pyslice \<Rightarrow> nat \<times> nat" where
  "slice_indices n s =
     (let clip = (\<lambda>v. max 0 (min (int n) (if v < 0 then v + int n else v)));
          lo = clip (fst s); hi = clip (snd s)
      in (nat lo, nat (hi - lo)))"

definition exact_slice :: "pyslice \<Rightarrow> bool" where
  "exact_slice s = (0 \<le> fst s \<and> fst s < snd s \<and> snd s \<le> 16)"

definition extent :: "pyslice \<Rightarrow> int" where
  "extent s = snd s - fst s"

section \<open>Arrays\<close>

text \<open>
  The block and data arrays of a section are 16 x 16 x 16 NumPy arrays, indexed
  \<open>[y, z, x]\<close>. They are modelled as functions on index triples; only indices below 16
  are ever read. A basic slice of such an array is a view: per axis the first index and
  the number of indices.
\<close>

type_synonym index3 = "nat \<times> nat \<times> nat"
type_synonym 'a ndarray = "index3 \<Rightarrow> 'a"
type_synonym view = "(nat \<times> nat) \<times> (nat \<times> nat) \<times> (nat \<times> nat)"

definition view_of :: "slices \<Rightarrow> view" where
  "view_of s = (case s of (a, b, c) \<Rightarrow> (slice_indices 16 a, slice_indices 16 b, slice_indices 16 c))"

definition view_shape :: "view \<Rightarrow> nat \<times> nat \<times> nat" where
  "view_shape v = (case v of (a, b, c) \<Rightarrow> (snd a, snd b, snd c))"

text \<open>The indices of a view in C order (last axis fastest), as \<open>nonzero()\<close> lists them.\<close>

definition view_indices :: "view \<Rightarrow> index3 list" where
  "view_indices v =
     (case v of (a, b, c) \<Rightarrow>
        concat (map (\<lambda>i. concat (map (\<lambda>j. map (\<lambda>k. (i, j, k)) [0 ..< snd c]) [0 ..< snd b])) [0 ..< snd a]))"

text \<open>The array index behind an index of the view.\<close>

definition view_at :: "view \<Rightarrow> index3 \<Rightarrow> index3" where
  "view_at v l = (case v of (a, b, c) \<Rightarrow> case l of (i, j, k) \<Rightarrow> (fst a + i, fst b + j, fst c + k))"

text \<open>The index of the view that an array index has, when the view covers it.\<close>

definition view_local :: "view \<Rightarrow> index3 \<Rightarrow> index3 option" where
  "view_local v idx =
     (case v of (a, b, c) \<Rightarrow> case idx of (i, j, k) \<Rightarrow>
        if fst a \<le> i \<and> i < fst a + snd a \<and> fst b \<le> j \<and> j < fst b + snd b \<and>
           fst c \<le> k \<and> k < fst c + snd c
        then Some (i - fst a, j - fst b, k - fst c) else None)"

text \<open>
  \<open>dest[destSlices][mask] = new[mask]\<close> for a mask and new values that have the shape of
  the source view \<open>sv\<close> (lines 164 and 165): the cells of the destination view whose
  mask bit is set take the new value, all other cells of the array keep theirs. The
  caller has checked that the two views have one shape.
\<close>

definition masked_assign :: "view \<Rightarrow> view \<Rightarrow> bool ndarray \<Rightarrow> 'a ndarray \<Rightarrow> 'a ndarray \<Rightarrow> 'a ndarray" where
  "masked_assign dv sv m new old =
     (\<lambda>idx. case view_local dv idx of
        None \<Rightarrow> old idx
      | Some l \<Rightarrow> if m (view_at sv l) then new (view_at sv l) else old idx)"

section \<open>The type mask\<close>

datatype error = IndexError | ZeroDivisionError

text \<open>
  Lines 19 and 20: \<open>typemask = zeros(id_limit); typemask[blocksToCopy] = 1\<close>. NumPy
  takes an index \<open>b\<close> with \<open>-id_limit \<le> b < id_limit\<close>, a negative one counting from
  the end, and raises IndexError for any other.
\<close>

definition make_typemask :: "nat \<Rightarrow> int list \<Rightarrow> error + (nat \<Rightarrow> bool)" where
  "make_typemask id_limit blocksToCopy =
     (if list_all (\<lambda>b. - int id_limit \<le> b \<and> b < int id_limit) blocksToCopy
      then Inr (\<lambda>k. list_ex (\<lambda>b. (if b < 0 then b + int id_limit else b) = int k) blocksToCopy)
      else Inl IndexError)"

definition all_indices :: "index3 list" where
  "all_indices = view_indices ((0, 16), (0, 16), (0, 16))"

text \<open>Line 23: \<open>typemask[sourceBlocks]\<close>; a block id outside the mask raises IndexError.\<close>

definition maskedSourceMask :: "nat \<Rightarrow> (nat \<Rightarrow> bool) \<Rightarrow> nat ndarray \<Rightarrow> error + bool ndarray" where
  "maskedSourceMask id_limit typemask sourceBlocks =
     (if list_all (\<lambda>idx. sourceBlocks idx < id_limit) all_indices
      then Inr (\<lambda>idx. typemask (sourceBlocks idx))
      else Inl IndexError)"

text \<open>Line 28: an array of one True, which \<open>&\<close> broadcasts over the selection mask.\<close>

definition unmaskedSourceMask :: "nat ndarray \<Rightarrow> error + bool ndarray" where
  "unmaskedSourceMask sourceBlocks = Inr (\<lambda>idx. True)"

definition sourceMaskFunc :: "nat \<Rightarrow> int list option \<Rightarrow> error + (nat ndarray \<Rightarrow> error + bool ndarray)" where
  "sourceMaskFunc id_limit blocksToCopy =
     (case blocksToCopy of
        Some ids \<Rightarrow>
          (case make_typemask id_limit ids of
             Inl err \<Rightarrow> Inl err
           | Inr typemask \<Rightarrow> Inr (maskedSourceMask id_limit typemask))
      | None \<Rightarrow> Inr unmaskedSourceMask)"

section \<open>Dimensions, chunks and sections\<close>

record Section =
  Blocks :: "nat ndarray"
  Data :: "nat ndarray"

text \<open>
  Entities and tile entities: only their position and an identifying payload matter
  here. Modelled from the spec: \<open>copyWithOffset\<close> is not among the source files; it
  gives a copy with the translation vector applied to the position.
\<close>

record Entity =
  Position :: Vector
  payload :: nat

definition copyWithOffset :: "Entity \<Rightarrow> Vector \<Rightarrow> Entity" where
  "copyWithOffset entity copyOffset = entity\<lparr>Position := vadd (Position entity) copyOffset\<rparr>"

text \<open>
  Modelled from the spec: a chunk owns vertically stacked sections, an entity list, a
  tile-entity list, an optional biome array over its columns and a dirty flag. The
  enumeration \<open>sectionPositions()\<close> is the field \<open>Chunk_sectionPositions\<close>, the lookup
  \<open>getSection(cy)\<close> the field \<open>getSection\<close>; the biome array is indexed as the code
  reads it, \<open>Biomes[bx, bz]\<close>.
\<close>

record Chunk =
  Chunk_sectionPositions :: "int list"
  getSection :: "int \<rightharpoonup> Section"
  Entities :: "Entity list"
  TileEntities :: "Entity list"
  Biomes :: "(nat \<times> nat \<Rightarrow> nat) option"
  dirty :: bool

text \<open>
  The per-id lookup tables of a block type registry, taken as defined on every id.
\<close>

record BlockTypes =
  brightness :: "nat \<Rightarrow> nat"
  opacity :: "nat \<Rightarrow> nat"

record Dimension =
  chunks :: "int \<times> int \<rightharpoonup> Chunk"
  blocktypes :: BlockTypes

definition containsChunk :: "Dimension \<Rightarrow> int \<times> int \<Rightarrow> bool" where
  "containsChunk dim cpos = (chunks dim cpos \<noteq> None)"

text \<open>
  What the operation needs from outside this file: the id upper bound of the type
  registry, the converter factory of \<open>mceditlib.blocktypes\<close> (its result converts one
  pair of block id and data value and is applied to every cell), the chunk and the
  section that a fetch with \<open>create=True\<close> makes where none exists (no section where
  the chunk cannot hold one at that height), and the elapsed time that line 218 measures.
\<close>

record Env =
  id_limit :: nat
  blocktypeConverter :: "BlockTypes \<Rightarrow> BlockTypes \<Rightarrow> nat \<times> nat \<Rightarrow> nat \<times> nat"
  newChunk :: "int \<times> int \<Rightarrow> Chunk"
  newSection :: "int \<Rightarrow> Section option"
  duration :: int

text \<open>
  Modelled from the spec: the selection is a caller-supplied spatial predicate. It has
  a bounding box (origin and size), enumerates the chunks it covers, gives a mask per
  section (none where it does not overlap the section) and tests a point against its
  true shape.
\<close>

record Selection = BoundingBox +
  Selection_chunkPositions :: "(int \<times> int) list"
  section_mask :: "int \<Rightarrow> int \<Rightarrow> int \<Rightarrow> bool ndarray option"
  contains :: "Vector \<Rightarrow> bool"

text \<open>\<open>updateLights\<close> is \<open>False\<close>, the string \<open>"all"\<close> or another true value.\<close>

datatype lights = LightsOff | LightsEach | LightsAll

text \<open>
  Dimensions are objects that the operation mutates in place; the two arguments may be
  one object. The world is therefore a store of dimensions under their identities,
  and the arguments name the two dimensions by identity.
\<close>

type_synonym dimid = nat

record Args =
  destDim :: dimid
  sourceDim :: dimid
  sourceSelection :: Selection
  destinationPoint :: Vector
  blocksToCopy :: "int list option"
  entities :: bool
  create :: bool
  biomes :: bool
  updateLights :: lights

text \<open>
  The calls to collaborators and the points of interest of a run, in the order they
  happen: a progress pair yielded, the masked write into one destination section, a
  call of \<open>relight.updateLightsByCoord\<close>, of \<open>setBlocks\<close> with biomes, of
  \<open>addEntity\<close> and of \<open>addTileEntity\<close>.
\<close>

datatype event =
    Yield nat int
  | WriteBlocks dimid "int \<times> int" int
  | Relight dimid "int list" "int list" "int list"
  | SetBiomes dimid "int list" "int list" "nat list"
  | AddEntity dimid Entity
  | AddTileEntity dimid Entity

text \<open>
  The state a run works on: the store of dimensions and the log of events, and the
  local variables of the generator that change while it runs.
\<close>

record State =
  dims :: "dimid \<Rightarrow> Dimension"
  trace :: "event list"
  i :: nat
  entitiesCopied :: nat
  tileEntitiesCopied :: nat
  entitiesSeen :: nat
  tileEntitiesSeen :: nat
  allChanged :: "(int list \<times> int list \<times> int list) list"
  sourceBiomeMask :: "(nat \<times> nat \<Rightarrow> bool) option"

text \<open>The local variables that lines 47 to 77 compute once.\<close>

record Consts =
  c_chunkCount :: int
  makeSourceMask :: "nat ndarray \<Rightarrow> error + bool ndarray"
  copyOffset :: Vector
  convertBlocks :: "nat \<times> nat \<Rightarrow> nat \<times> nat"

text \<open>A \<open>for\<close> loop whose body may raise: the first error ends the loop, and what the
  body did until then stays done.\<close>

fun forEach :: "('a \<Rightarrow> 's \<Rightarrow> error option \<times> 's) \<Rightarrow> 'a list \<Rightarrow> 's \<Rightarrow> error option \<times> 's" where
  "forEach body [] s = (None, s)"
| "forEach body (x # xs) s =
     (case body x s of
        (Some err, s') \<Rightarrow> (Some err, s')
      | (None, s') \<Rightarrow> forEach body xs s')"

definition setDim :: "dimid \<Rightarrow> Dimension \<Rightarrow> State \<Rightarrow> State" where
  "setDim d dim st = st\<lparr>dims := (dims st)(d := dim)\<rparr>"

definition setChunk :: "dimid \<Rightarrow> int \<times> int \<Rightarrow> Chunk \<Rightarrow> State \<Rightarrow> State" where
  "setChunk d cpos ch st = setDim d ((dims st d)\<lparr>chunks := (chunks (dims st d))(cpos \<mapsto> ch)\<rparr>) st"

definition emit :: "event \<Rightarrow> State \<Rightarrow> State" where
  "emit ev st = st\<lparr>trace := trace st @ [ev]\<rparr>"

text \<open>
  Modelled from the spec: chunk fetch with creation (line 121) returns the chunk that
  is there, and puts a new one there first where there is none.
\<close>

definition getChunk_create :: "Env \<Rightarrow> dimid \<Rightarrow> int \<times> int \<Rightarrow> State \<Rightarrow> State" where
  "getChunk_create env d cpos st =
     (case chunks (dims st d) cpos of
        Some ch \<Rightarrow> st
      | None \<Rightarrow> setChunk d cpos (newChunk env cpos) st)"

text \<open>
  Modelled from the spec: section fetch with creation (line 130) returns the section
  that is there, makes one where there is none, and returns none where it cannot.
\<close>

definition getSection_create :: "Env \<Rightarrow> dimid \<Rightarrow> int \<times> int \<Rightarrow> int \<Rightarrow> State \<Rightarrow> Section option \<times> State" where
  "getSection_create env d cpos cy st =
     (case chunks (dims st d) cpos of
        None \<Rightarrow> (None, st)
      | Some ch \<Rightarrow>
          (case getSection ch cy of
             Some sec \<Rightarrow> (Some sec, st)
           | None \<Rightarrow>
               (case newSection env cy of
                  None \<Rightarrow> (None, st)
                | Some sec \<Rightarrow>
                    (Some sec,
                     setChunk d cpos
                       (ch\<lparr>getSection := (getSection ch)(cy \<mapsto> sec),
                           Chunk_sectionPositions := Chunk_sectionPositions ch @ [cy]\<rparr>) st))))"

definition setSection :: "dimid \<Rightarrow> int \<times> int \<Rightarrow> int \<Rightarrow> Section \<Rightarrow> State \<Rightarrow> State" where
  "setSection d cpos cy sec st =
     (case chunks (dims st d) cpos of
        None \<Rightarrow> st
      | Some ch \<Rightarrow> setChunk d cpos (ch\<lparr>getSection := (getSection ch)(cy \<mapsto> sec)\<rparr>) st)"

section \<open>The copy of one source section into one destination section\<close>

definition sectionAt :: "dimid \<Rightarrow> int \<times> int \<Rightarrow> int \<Rightarrow> State \<Rightarrow> Section option" where
  "sectionAt d cpos cy st =
     (case chunks (dims st d) cpos of None \<Rightarrow> None | Some ch \<Rightarrow> getSection ch cy)"

text \<open>
  Lines 157 to 161, 169 and 175: the indices of the set bits of \<open>sourceMaskPart\<close>, in
  the order of \<open>nonzero()\<close>, at which the brightness or the opacity of the block in the
  destination differs from that of the converted source block.
\<close>

definition lightDeltas ::
  "BlockTypes \<Rightarrow> view \<Rightarrow> view \<Rightarrow> bool ndarray \<Rightarrow> nat ndarray \<Rightarrow> nat ndarray \<Rightarrow> index3 list" where
  "lightDeltas types dv sv sourceMask convertedSourceBlocks destBlocks =
     filter
       (\<lambda>l. brightness types (destBlocks (view_at dv l)) \<noteq> brightness types (convertedSourceBlocks (view_at sv l))
           \<or> opacity types (destBlocks (view_at dv l)) \<noteq> opacity types (convertedSourceBlocks (view_at sv l)))
       (filter (\<lambda>l. sourceMask (view_at sv l)) (view_indices sv))"

text \<open>
  Lines 175 to 182: \<open>x, y, z = sourceMaskPart.nonzero()\<close> names the index arrays of the
  first, second and third axis; the minimum corner of the intersection is added to them
  in that order. World coordinates are taken to fit the 32-bit integers of
  \<open>astype('i4')\<close>.
\<close>

definition changedCoords :: "BoundingBox \<Rightarrow> index3 list \<Rightarrow> int list \<times> int list \<times> int list" where
  "changedCoords ix changed =
     (map (\<lambda>(x, y, z). int x + minx ix) changed,
      map (\<lambda>(x, y, z). int y + miny ix) changed,
      map (\<lambda>(x, y, z). int z + minz ix) changed)"

text \<open>Lines 167 to 191.\<close>

definition relightCell :: "Args \<Rightarrow> BoundingBox \<Rightarrow> index3 list \<Rightarrow> State \<Rightarrow> State" where
  "relightCell args ix changed st =
     (if updateLights args = LightsOff then st
      else if changed = [] then st
      else if updateLights args = LightsAll
        then st\<lparr>allChanged := allChanged st @ [changedCoords ix changed]\<rparr>
        else (case changedCoords ix changed of
                (changedX, changedY, changedZ) \<Rightarrow> emit (Relight (destDim args) changedX changedY changedZ) st))"

text \<open>
  Lines 124 to 191, the body of the loop over \<open>destCy\<close>. The source section is the
  object fetched in line 99, read here as it is now. A boolean index whose shape is not
  the shape of the indexed view raises IndexError (line 157).
\<close>

definition copyCell ::
  "Env \<Rightarrow> Args \<Rightarrow> Consts \<Rightarrow> bool ndarray \<Rightarrow> int \<times> int \<Rightarrow> int \<Rightarrow> BoundingBox \<Rightarrow> int \<times> int \<Rightarrow> int
     \<Rightarrow> State \<Rightarrow> error option \<times> State" where
  "copyCell env args c sourceMask sourceCpos sourceCy destBox destCpos destCy st =
     (let ix = cellIntersect destBox destCpos destCy in
      if volume ix = 0 then (None, st)
      else
        (case getSection_create env (destDim args) destCpos destCy st of
           (None, st1) \<Rightarrow> (None, st1)
         | (Some destSection, st1) \<Rightarrow>
             (case sectionAt (sourceDim args) sourceCpos sourceCy st1 of
                None \<Rightarrow> (None, st1)
              | Some sourceSection \<Rightarrow>
                  (let dv = view_of (destSlices ix destCpos destCy);
                       sv = view_of (sourceSlices ix (copyOffset c) sourceCpos sourceCy)
                   in if view_shape dv \<noteq> view_shape sv then (Some IndexError, st1)
                      else
                        (let converted = (\<lambda>idx. convertBlocks c (Blocks sourceSection idx, Data sourceSection idx));
                             changed = lightDeltas (blocktypes (dims st1 (destDim args))) dv sv sourceMask
                                         (\<lambda>idx. fst (converted idx)) (Blocks destSection);
                             written = destSection
                               \<lparr>Blocks := masked_assign dv sv sourceMask (\<lambda>idx. fst (converted idx)) (Blocks destSection),
                                Data := masked_assign dv sv sourceMask (\<lambda>idx. snd (converted idx)) (Data destSection)\<rparr>
                         in (None,
                             relightCell args ix changed
                               (emit (WriteBlocks (destDim args) destCpos destCy)
                                  (setSection (destDim args) destCpos destCy written st1))))))))"

definition markDirty :: "dimid \<Rightarrow> int \<times> int \<Rightarrow> State \<Rightarrow> State" where
  "markDirty d cpos st =
     (case chunks (dims st d) cpos of
        None \<Rightarrow> st
      | Some ch \<Rightarrow> setChunk d cpos (ch\<lparr>dirty := True\<rparr>) st)"

text \<open>Lines 119 to 193, the body of the loop over \<open>destCpos\<close>.\<close>

definition copyDestChunk ::
  "Env \<Rightarrow> Args \<Rightarrow> Consts \<Rightarrow> bool ndarray \<Rightarrow> int \<times> int \<Rightarrow> int \<Rightarrow> BoundingBox \<Rightarrow> int \<times> int
     \<Rightarrow> State \<Rightarrow> error option \<times> State" where
  "copyDestChunk env args c sourceMask sourceCpos sourceCy destBox destCpos st =
     (if \<not> create args \<and> \<not> containsChunk (dims st (destDim args)) destCpos then (None, st)
      else
        (case forEach (copyCell env args c sourceMask sourceCpos sourceCy destBox destCpos)
                (sectionPositions destBox (fst destCpos) (snd destCpos))
                (getChunk_create env (destDim args) destCpos st) of
           (Some err, st1) \<Rightarrow> (Some err, st1)
         | (None, st1) \<Rightarrow> (None, markDirty (destDim args) destCpos st1)))"

text \<open>Line 112: \<open>sourceBiomeMask |= sourceMask.any(axis=0)\<close>; line 95 has set the mask.\<close>

definition orBiomeMask :: "bool ndarray \<Rightarrow> State \<Rightarrow> State" where
  "orBiomeMask sourceMask st =
     st\<lparr>sourceBiomeMask :=
          Some (\<lambda>col. (case sourceBiomeMask st of None \<Rightarrow> False | Some m \<Rightarrow> m col)
                 \<or> list_ex (\<lambda>y. sourceMask (y, fst col, snd col)) [0 ..< 16])\<rparr>"

text \<open>Lines 98 to 193, the body of the loop over \<open>sourceCy\<close>.\<close>

definition copySection ::
  "Env \<Rightarrow> Args \<Rightarrow> Consts \<Rightarrow> bool \<Rightarrow> int \<times> int \<Rightarrow> int \<Rightarrow> State \<Rightarrow> error option \<times> State" where
  "copySection env args c hasBiomes sourceCpos sourceCy st =
     (case sectionAt (sourceDim args) sourceCpos sourceCy st of
        None \<Rightarrow> (None, st)
      | Some sourceSection \<Rightarrow>
          (case section_mask (sourceSelection args) (fst sourceCpos) sourceCy (snd sourceCpos) of
             None \<Rightarrow> (None, st)
           | Some selectionMask \<Rightarrow>
               (case makeSourceMask c (Blocks sourceSection) of
                  Inl err \<Rightarrow> (Some err, st)
                | Inr typeMask \<Rightarrow>
                    (let sourceMask = (\<lambda>idx. selectionMask idx \<and> typeMask idx);
                         destBox = sectionDestBox sourceCpos sourceCy (copyOffset c)
                     in forEach (copyDestChunk env args c sourceMask sourceCpos sourceCy destBox)
                          (chunkPositions destBox)
                          (if hasBiomes then orBiomeMask sourceMask st else st)))))"

section \<open>Biomes, entities and tile entities of one source chunk\<close>

text \<open>
  Modelled from the spec: \<open>setBlocks\<close> with \<open>Biomes\<close> is the destination's bulk column
  write. It stores each value as the biome of its world column, where the chunk of that
  column exists and has a biome array.
\<close>

definition setBiome :: "dimid \<Rightarrow> int \<times> int \<times> nat \<Rightarrow> State \<Rightarrow> State" where
  "setBiome d w st =
     (case w of (x, z, v) \<Rightarrow>
        (case chunks (dims st d) (drop_bit 4 x, drop_bit 4 z) of
           None \<Rightarrow> st
         | Some ch \<Rightarrow>
             (case Biomes ch of
                None \<Rightarrow> st
              | Some arr \<Rightarrow>
                  setChunk d (drop_bit 4 x, drop_bit 4 z)
                    (ch\<lparr>Biomes := Some (arr((nat (x mod 16), nat (z mod 16)) := v))\<rparr>) st)))"

definition setBlocks_Biomes :: "dimid \<Rightarrow> int list \<Rightarrow> int list \<Rightarrow> nat list \<Rightarrow> State \<Rightarrow> State" where
  "setBlocks_Biomes d xs zs vals st =
     fold (setBiome d) (zip xs (zip zs vals)) (emit (SetBiomes d xs zs vals) st)"

definition biome_indices :: "(nat \<times> nat) list" where
  "biome_indices = concat (map (\<lambda>a. map (\<lambda>b. (a, b)) [0 ..< 16]) [0 ..< 16])"

text \<open>Lines 196 to 200.\<close>

definition copyBiomes :: "Args \<Rightarrow> bool \<Rightarrow> int \<times> int \<Rightarrow> State \<Rightarrow> State" where
  "copyBiomes args hasBiomes sourceCpos st =
     (if \<not> hasBiomes then st
      else
        (case chunks (dims st (sourceDim args)) sourceCpos of
           None \<Rightarrow> st
         | Some sourceChunk \<Rightarrow>
             (case Biomes sourceChunk of
                None \<Rightarrow> st
              | Some sourceBiomes \<Rightarrow>
                  (let nz = filter (\<lambda>col. case sourceBiomeMask st of None \<Rightarrow> False | Some m \<Rightarrow> m col) biome_indices;
                       wbx = map (\<lambda>(bx, bz). int bx + push_bit 4 (fst sourceCpos)) nz;
                       wbz = map (\<lambda>(bx, bz). int bz + push_bit 4 (snd sourceCpos)) nz
                   in setBlocks_Biomes (destDim args) wbx wbz (map sourceBiomes nz) st))))"

text \<open>
  Modelled from the spec: \<open>addEntity\<close> and \<open>addTileEntity\<close> are the destination's
  insertion interface; a call is recorded in the log.
\<close>

definition copyEntity :: "Args \<Rightarrow> Consts \<Rightarrow> Entity \<Rightarrow> State \<Rightarrow> State" where
  "copyEntity args c entity st =
     (if contains (sourceSelection args) (Position entity)
      then emit (AddEntity (destDim args) (copyWithOffset entity (copyOffset c)))
             (st\<lparr>entitiesCopied := entitiesCopied st + 1\<rparr>)
      else st)"

definition copyTileEntity :: "Args \<Rightarrow> Consts \<Rightarrow> Entity \<Rightarrow> State \<Rightarrow> State" where
  "copyTileEntity args c tileEntity st =
     (if contains (sourceSelection args) (Position tileEntity)
      then emit (AddTileEntity (destDim args) (copyWithOffset tileEntity (copyOffset c)))
             (st\<lparr>tileEntitiesCopied := tileEntitiesCopied st + 1\<rparr>)
      else st)"

text \<open>Lines 203 to 209.\<close>

definition copyEntities :: "Args \<Rightarrow> Consts \<Rightarrow> int \<times> int \<Rightarrow> State \<Rightarrow> State" where
  "copyEntities args c sourceCpos st =
     (if entities args then
        (case chunks (dims st (sourceDim args)) sourceCpos of
           None \<Rightarrow> st
         | Some sourceChunk \<Rightarrow>
             fold (copyEntity args c) (Entities sourceChunk)
               (st\<lparr>entitiesSeen := entitiesSeen st + length (Entities sourceChunk)\<rparr>))
      else st)"

text \<open>Lines 211 to 216.\<close>

definition copyTileEntities :: "Args \<Rightarrow> Consts \<Rightarrow> int \<times> int \<Rightarrow> State \<Rightarrow> State" where
  "copyTileEntities args c sourceCpos st =
     (case chunks (dims st (sourceDim args)) sourceCpos of
        None \<Rightarrow> st
      | Some sourceChunk \<Rightarrow>
          fold (copyTileEntity args c) (TileEntities sourceChunk)
            (st\<lparr>tileEntitiesSeen := tileEntitiesSeen st + length (TileEntities sourceChunk)\<rparr>))"

text \<open>
  Lines 88 to 216, the body of the loop over \<open>sourceCpos\<close> from after the \<open>yield\<close>. The
  source chunk is the object fetched in line 84.
\<close>

definition chunkBody :: "Env \<Rightarrow> Args \<Rightarrow> Consts \<Rightarrow> int \<times> int \<Rightarrow> State \<Rightarrow> error option \<times> State" where
  "chunkBody env args c sourceCpos st =
     (case chunks (dims st (sourceDim args)) sourceCpos of
        None \<Rightarrow> (None, st)
      | Some sourceChunk \<Rightarrow>
          (let hasBiomes = (biomes args \<and> Biomes sourceChunk \<noteq> None)
           in case forEach (copySection env args c hasBiomes sourceCpos)
                     (Chunk_sectionPositions sourceChunk)
                     (if hasBiomes then st\<lparr>sourceBiomeMask := Some (\<lambda>col. False)\<rparr> else st) of
                (Some err, st1) \<Rightarrow> (Some err, st1)
              | (None, st1) \<Rightarrow>
                  (None,
                   copyTileEntities args c sourceCpos
                     (copyEntities args c sourceCpos
                        (copyBiomes args hasBiomes sourceCpos st1)))))"

section \<open>The generator\<close>

text \<open>Lines 47 to 77, run when the consumer first asks for a value.\<close>

definition prologue :: "Env \<Rightarrow> Args \<Rightarrow> State \<Rightarrow> error + Consts \<times> State" where
  "prologue env args st =
     (let destBox = \<lparr>origin = destinationPoint args, size = size (sourceSelection args)\<rparr>
      in case sourceMaskFunc (id_limit env) (blocksToCopy args) of
           Inl err \<Rightarrow> Inl err
         | Inr mk \<Rightarrow>
             Inr (\<lparr>c_chunkCount = chunkCount destBox,
                   makeSourceMask = mk,
                   copyOffset = vsub (origin destBox) (origin (sourceSelection args)),
                   convertBlocks = blocktypeConverter env (blocktypes (dims st (destDim args)))
                                     (blocktypes (dims st (sourceDim args)))\<rparr>,
                  st\<lparr>i := 0, entitiesCopied := 0, tileEntitiesCopied := 0, entitiesSeen := 0,
                     tileEntitiesSeen := 0, allChanged := [], sourceBiomeMask := None\<rparr>))"

datatype outcome = Yielded nat int | StopIteration | Raised error

text \<open>
  Lines 218 to 241, after the loop. The log call of line 219 divides by \<open>i\<close> and by
  the elapsed time and raises ZeroDivisionError when one is zero. In batched mode one
  call of the relighting collaborator is made per accumulated entry.
\<close>

definition epilogue :: "Env \<Rightarrow> Args \<Rightarrow> State \<Rightarrow> outcome \<times> State" where
  "epilogue env args st =
     (if i st = 0 \<or> duration env = 0 then (Raised ZeroDivisionError, st)
      else if updateLights args = LightsAll then
        (StopIteration,
         st\<lparr>trace := trace st @ map (\<lambda>(x, y, z). Relight (destDim args) x y z) (allChanged st),
            i := (let j = (if allChanged st = [] then i st else length (allChanged st) - 1)
                  in if j = 0 then 1 else j)\<rparr>)
      else (StopIteration, st))"

text \<open>
  A generator is not started, suspended at the \<open>yield\<close> of line 87 (with the chunk it
  has announced and the chunk positions still to visit), or finished.
\<close>

datatype gen = NotStarted | Suspended Consts "int \<times> int" "(int \<times> int) list" | Finished

text \<open>Lines 79 to 87: on to the next chunk the source has, and the \<open>yield\<close>.\<close>

fun advance :: "Env \<Rightarrow> Args \<Rightarrow> Consts \<Rightarrow> (int \<times> int) list \<Rightarrow> State \<Rightarrow> outcome \<times> gen \<times> State" where
  "advance env args c [] st = (case epilogue env args st of (out, st') \<Rightarrow> (out, Finished, st'))"
| "advance env args c (sourceCpos # rest) st =
     (if \<not> containsChunk (dims st (sourceDim args)) sourceCpos then advance env args c rest st
      else (Yielded (i st + 1) (c_chunkCount c),
            Suspended c sourceCpos rest,
            emit (Yield (i st + 1) (c_chunkCount c)) (st\<lparr>i := i st + 1\<rparr>)))"

text \<open>One \<open>next()\<close> on the generator that \<open>copyBlocksIter\<close> returns.\<close>

definition gen_next :: "Env \<Rightarrow> Args \<Rightarrow> gen \<Rightarrow> State \<Rightarrow> outcome \<times> gen \<times> State" where
  "gen_next env args g st =
     (case g of
        NotStarted \<Rightarrow>
          (case prologue env args st of
             Inl err \<Rightarrow> (Raised err, Finished, st)
           | Inr (c, st0) \<Rightarrow> advance env args c (Selection_chunkPositions (sourceSelection args)) st0)
      | Suspended c sourceCpos rest \<Rightarrow>
          (case chunkBody env args c sourceCpos st of
             (Some err, st1) \<Rightarrow> (Raised err, Finished, st1)
           | (None, st1) \<Rightarrow> advance env args c rest st1)
      | Finished \<Rightarrow> (StopIteration, Finished, st))"

text \<open>The consumer asks \<open>k\<close> times and then stops.\<close>

fun gen_nexts :: "Env \<Rightarrow> Args \<Rightarrow> nat \<Rightarrow> gen \<Rightarrow> State \<Rightarrow> gen \<times> State" where
  "gen_nexts env args 0 g st = (g, st)"
| "gen_nexts env args (Suc k) g st =
     (case gen_next env args g st of (out, g', st') \<Rightarrow> gen_nexts env args k g' st')"

text \<open>
  The consumer that asks until the generator stops or raises. Each \<open>next()\<close> that
  yields leaves fewer chunk positions to visit, so the loop ends.
\<close>

fun pending :: "Args \<Rightarrow> gen \<Rightarrow> nat" where
  "pending args NotStarted = length (Selection_chunkPositions (sourceSelection args)) + 2"
| "pending args (Suspended c sourceCpos rest) = length rest + 1"
| "pending args Finished = 0"

function exhaust :: "Env \<Rightarrow> Args \<Rightarrow> gen \<Rightarrow> State \<Rightarrow> outcome \<times> State" where
  "exhaust env args g st =
     (case gen_next env args g st of
        (Yielded n m, g', st') \<Rightarrow> exhaust env args g' st'
      | (StopIteration, g', st') \<Rightarrow> (StopIteration, st')
      | (Raised err, g', st') \<Rightarrow> (Raised err, st'))"
  by pat_completeness auto
termination
proof (relation "measure (\<lambda>(env, args, g, st). pending args g)")
  show "wf (measure (\<lambda>(env, args, g, st). pending args g))" by simp
next
  fix env args g st x y n m g' st'
  assume call: "(x, y) = gen_next env args g st" "x = Yielded n m" "(g', st') = y"
  have adv: "pending args h \<le> length xs"
    if "advance env args c xs s = (Yielded n m, h, s')" for c xs s h s'
    using that
  proof (induction xs arbitrary: s)
    case Nil
    then show ?case by (auto simp: epilogue_def split: prod.splits if_splits)
  next
    case (Cons p ps)
    show ?case
    proof (cases "containsChunk (dims s (sourceDim args)) p")
      case True
      with Cons.prems show ?thesis by auto
    next
      case False
      with Cons.prems have "advance env args c ps s = (Yielded n m, h, s')" by simp
      from Cons.IH[OF this] show ?thesis by simp
    qed
  qed
  from call have "gen_next env args g st = (Yielded n m, g', st')"
    by simp
  then have "pending args g' < pending args g"
    by (cases g) (auto simp: gen_next_def split: sum.splits prod.splits option.splits dest!: adv)
  then show "((env, args, g', st'), (env, args, g, st)) \<in> measure (\<lambda>(env, args, g, st). pending args g)"
    by simp
qed

definition slices_exact :: "slices \<Rightarrow> bool" where
  "slices_exact s = (case s of (a, b, c) \<Rightarrow> exact_slice a \<and> exact_slice b \<and> exact_slice c)"

definition slices_extents :: "slices \<Rightarrow> int \<times> int \<times> int" where
  "slices_extents s = (case s of (a, b, c) \<Rightarrow> (extent a, extent b, extent c))"

section \<open>Reading a dimension by world position\<close>

text \<open>The block id and the data value stored at a world position, where a section holds it.\<close>

definition blockAt :: "Dimension \<Rightarrow> Vector \<Rightarrow> (nat \<times> nat) option" where
  "blockAt dim p =
     (case p of (x, y, z) \<Rightarrow>
        (case chunks dim (drop_bit 4 x, drop_bit 4 z) of
           None \<Rightarrow> None
         | Some ch \<Rightarrow>
             (case getSection ch (drop_bit 4 y) of
                None \<Rightarrow> None
              | Some sec \<Rightarrow>
                  Some (Blocks sec (nat (y mod 16), nat (z mod 16), nat (x mod 16)),
                        Data sec (nat (y mod 16), nat (z mod 16), nat (x mod 16))))))"

text \<open>The biome of a world column, where a chunk with a biome array holds it.\<close>

definition biomeAt :: "Dimension \<Rightarrow> int \<times> int \<Rightarrow> nat option" where
  "biomeAt dim col =
     (case col of (x, z) \<Rightarrow>
        (case chunks dim (drop_bit 4 x, drop_bit 4 z) of
           None \<Rightarrow> None
         | Some ch \<Rightarrow>
             (case Biomes ch of
                None \<Rightarrow> None
              | Some arr \<Rightarrow> Some (arr (nat (x mod 16), nat (z mod 16))))))"


section \<open>The run as a loop over the chunk positions\<close>

text \<open>
  One round of the loop over \<open>sourceCpos\<close> for a consumer that never stops: the chunk is
  skipped when the source does not have it, else the pair is yielded and the body runs.
\<close>

definition visitChunk :: "Env \<Rightarrow> Args \<Rightarrow> Consts \<Rightarrow> int \<times> int \<Rightarrow> State \<Rightarrow> error option \<times> State" where
  "visitChunk env args c sourceCpos st =
     (if \<not> containsChunk (dims st (sourceDim args)) sourceCpos then (None, st)
      else chunkBody env args c sourceCpos (emit (Yield (i st + 1) (c_chunkCount c)) (st\<lparr>i := i st + 1\<rparr>)))"

definition finish :: "Env \<Rightarrow> Args \<Rightarrow> error option \<times> State \<Rightarrow> outcome \<times> State" where
  "finish env args r = (case r of (Some err, s) \<Rightarrow> (Raised err, s) | (None, s) \<Rightarrow> epilogue env args s)"


text \<open>A step leaves every dimension but the destination as it was.\<close>

definition frame :: "dimid \<Rightarrow> State \<Rightarrow> State \<Rightarrow> bool" where
  "frame dst st st' = (\<forall>d. d \<noteq> dst \<longrightarrow> dims st' d = dims st d)"



text \<open>The calls of \<open>addEntity\<close> in a log, with the dimension they went to.\<close>

definition entitiesAdded :: "event list \<Rightarrow> (dimid \<times> Entity) list" where
  "entitiesAdded evs = concat (map (\<lambda>ev. case ev of AddEntity d e \<Rightarrow> [(d, e)] | _ \<Rightarrow> []) evs)"

text \<open>The calls of \<open>addTileEntity\<close> in a log.\<close>

definition tileEntitiesAdded :: "event list \<Rightarrow> (dimid \<times> Entity) list" where
  "tileEntitiesAdded evs = concat (map (\<lambda>ev. case ev of AddTileEntity d e \<Rightarrow> [(d, e)] | _ \<Rightarrow> []) evs)"

text \<open>The translated copies of the members of a list that the selection contains (lines 206 to 209).\<close>

definition migrated :: "Args \<Rightarrow> Vector \<Rightarrow> Entity list \<Rightarrow> (dimid \<times> Entity) list" where
  "migrated args offset es =
     map (\<lambda>e. (destDim args, copyWithOffset e offset))
       (filter (\<lambda>e. contains (sourceSelection args) (Position e)) es)"

text \<open>
  A step is calm when it inserts no entity and no tile entity and leaves the entity lists
  of every chunk as they were.
\<close>

definition calm :: "State \<Rightarrow> State \<Rightarrow> bool" where
  "calm st st' =
     (entitiesAdded (trace st') = entitiesAdded (trace st)
      \<and> tileEntitiesAdded (trace st') = tileEntitiesAdded (trace st)
      \<and> (\<forall>d cpos ch. chunks (dims st d) cpos = Some ch \<longrightarrow>
            (\<exists>ch'. chunks (dims st' d) cpos = Some ch' \<and> Entities ch' = Entities ch
                  \<and> TileEntities ch' = TileEntities ch)))"

text \<open>The index within its section, the chunk and the section of a world position.\<close>

definition localIndex :: "Vector \<Rightarrow> index3" where
  "localIndex p = (case p of (x, y, z) \<Rightarrow> (nat (y mod 16), nat (z mod 16), nat (x mod 16)))"

definition chunkOf :: "Vector \<Rightarrow> int \<times> int" where
  "chunkOf p = (case p of (x, y, z) \<Rightarrow> (drop_bit 4 x, drop_bit 4 z))"

definition sectionOf :: "Vector \<Rightarrow> int" where
  "sectionOf p = (case p of (x, y, z) \<Rightarrow> drop_bit 4 y)"

text \<open>An index lies in a range given by its first index and its length.\<close>

definition within :: "nat \<times> nat \<Rightarrow> nat \<Rightarrow> bool" where
  "within r k = (fst r \<le> k \<and> k < fst r + snd r)"

section \<open>What the copy does to the blocks of the destination\<close>

text \<open>
  The mask that lines 99 to 108 compute for a stored source section: the selection's mask
  of the section and the type mask; none when the section is not stored, the selection
  has no mask for it, or the type mask raises.
\<close>

definition sourceMaskOf :: "Args \<Rightarrow> Consts \<Rightarrow> Dimension \<Rightarrow> int \<times> int \<Rightarrow> int \<Rightarrow> bool ndarray option" where
  "sourceMaskOf args c S cpos cy =
     (case chunks S cpos of
        None \<Rightarrow> None
      | Some ch \<Rightarrow>
          (case getSection ch cy of
             None \<Rightarrow> None
           | Some sec \<Rightarrow>
               (case section_mask (sourceSelection args) (fst cpos) cy (snd cpos) of
                  None \<Rightarrow> None
                | Some selectionMask \<Rightarrow>
                    (case makeSourceMask c (Blocks sec) of
                       Inl err \<Rightarrow> None
                     | Inr typeMask \<Rightarrow> Some (\<lambda>idx. selectionMask idx \<and> typeMask idx)))))"

text \<open>A source position is selected when the mask of its section has its bit set.\<close>

definition selectedAt :: "Args \<Rightarrow> Consts \<Rightarrow> Dimension \<Rightarrow> Vector \<Rightarrow> bool" where
  "selectedAt args c S q =
     (case sourceMaskOf args c S (chunkOf q) (sectionOf q) of
        None \<Rightarrow> False
      | Some m \<Rightarrow> m (localIndex q))"

text \<open>
  The destination position \<open>p\<close> holds the converted block and data of the selected source
  position \<open>p - copyOffset\<close>.
\<close>

definition copiedTo :: "Args \<Rightarrow> Consts \<Rightarrow> Dimension \<Rightarrow> Dimension \<Rightarrow> Vector \<Rightarrow> bool" where
  "copiedTo args c S D' p =
     (selectedAt args c S (vsub p (copyOffset c))
      \<and> (\<exists>w. blockAt S (vsub p (copyOffset c)) = Some w \<and> blockAt D' p = Some (convertBlocks c w)))"

text \<open>
  What a step may do to the destination \<open>D\<close>: it keeps the chunks, makes new chunks only
  when \<open>create\<close> is set, and leaves each voxel as it was or as the copy of its selected
  source voxel.
\<close>

definition writes_ok :: "Args \<Rightarrow> Consts \<Rightarrow> Dimension \<Rightarrow> Dimension \<Rightarrow> Dimension \<Rightarrow> bool" where
  "writes_ok args c S D D' =
     ((\<forall>cp. chunks D cp \<noteq> None \<longrightarrow> chunks D' cp \<noteq> None)
      \<and> (\<not> create args \<longrightarrow> (\<forall>cp. chunks D' cp \<noteq> None \<longrightarrow> chunks D cp \<noteq> None))
      \<and> (\<forall>p v. blockAt D p = Some v \<longrightarrow> blockAt D' p = Some v \<or> copiedTo args c S D' p))"

text \<open>The same for states, when source and destination are two dimensions and the source is \<open>S\<close>.\<close>

definition sound :: "Args \<Rightarrow> Consts \<Rightarrow> Dimension \<Rightarrow> State \<Rightarrow> State \<Rightarrow> bool" where
  "sound args c S st st' =
     (destDim args \<noteq> sourceDim args \<longrightarrow> dims st (sourceDim args) = S \<longrightarrow>
        dims st' (sourceDim args) = S
        \<and> writes_ok args c S (dims st (destDim args)) (dims st' (destDim args)))"

text \<open>
  The destination stores the position \<open>p\<close>, and holds there the copy of its source position
  when that is selected.
\<close>

definition landed :: "Args \<Rightarrow> Consts \<Rightarrow> Dimension \<Rightarrow> Dimension \<Rightarrow> Vector \<Rightarrow> bool" where
  "landed args c S D' p =
     (blockAt D' p \<noteq> None
      \<and> (selectedAt args c S (vsub p (copyOffset c)) \<longrightarrow> copiedTo args c S D' p))"

definition landedAt :: "Args \<Rightarrow> Consts \<Rightarrow> Dimension \<Rightarrow> Vector \<Rightarrow> State \<Rightarrow> bool" where
  "landedAt args c S p t =
     (dims t (sourceDim args) = S \<and> landed args c S (dims t (destDim args)) p)"

text \<open>
  The destination can take a voxel at \<open>p\<close>: its chunk is there or may be created (lines
  119 to 121), and its section is there or can be made (line 130).
\<close>

definition avail :: "Env \<Rightarrow> Args \<Rightarrow> Dimension \<Rightarrow> Vector \<Rightarrow> bool" where
  "avail env args D p =
     ((create args \<or> chunks D (chunkOf p) \<noteq> None)
      \<and> (blockAt D p \<noteq> None \<or> newSection env (sectionOf p) \<noteq> None))"

text \<open>The same once the chunk is there.\<close>

definition ready :: "Env \<Rightarrow> Args \<Rightarrow> Dimension \<Rightarrow> Vector \<Rightarrow> bool" where
  "ready env args D p =
     (chunks D (chunkOf p) \<noteq> None
      \<and> (blockAt D p \<noteq> None \<or> newSection env (sectionOf p) \<noteq> None))"


text \<open>The selection has a mask for the section of a position.\<close>

definition touched :: "Selection \<Rightarrow> Vector \<Rightarrow> bool" where
  "touched sel q = (section_mask sel (fst (chunkOf q)) (sectionOf q) (snd (chunkOf q)) \<noteq> None)"

text \<open>
  The loops of lines 79 and 98 come to the section of the source position \<open>q\<close>: the
  selection lists its chunk, the source has the chunk, and the chunk lists the section.
\<close>

definition enumerated :: "Selection \<Rightarrow> Dimension \<Rightarrow> Vector \<Rightarrow> bool" where
  "enumerated sel S q =
     (chunkOf q \<in> set (Selection_chunkPositions sel)
      \<and> (case chunks S (chunkOf q) of
           None \<Rightarrow> False
         | Some ch \<Rightarrow> sectionOf q \<in> set (Chunk_sectionPositions ch)))"


section \<open>Example worlds\<close>

text \<open>
  Small worlds on which the theorems below are exercised. Block 0 is air (transparent),
  every other block is opaque. The registries of the two dimensions are the same, so the
  converter is the identity. Sections cannot be created in these worlds.
\<close>

definition ex_env :: Env where
  "ex_env = \<lparr>id_limit = 4096, blocktypeConverter = (\<lambda>destTypes sourceTypes b. b),
     newChunk = (\<lambda>cpos. \<lparr>Chunk_sectionPositions = [], getSection = Map.empty, Entities = [],
                          TileEntities = [], Biomes = None, dirty = False\<rparr>),
     newSection = (\<lambda>cy. None), duration = 1\<rparr>"

definition ex_types :: BlockTypes where
  "ex_types = \<lparr>brightness = (\<lambda>b. 0), opacity = (\<lambda>b. if b = 0 then 0 else 15)\<rparr>"

definition ex_section :: "nat \<Rightarrow> Section" where
  "ex_section b = \<lparr>Blocks = (\<lambda>idx. b), Data = (\<lambda>idx. 0)\<rparr>"

definition ex_chunk :: "(int \<times> Section) list \<Rightarrow> (nat \<times> nat \<Rightarrow> nat) option \<Rightarrow> Chunk" where
  "ex_chunk secs bio = \<lparr>Chunk_sectionPositions = map fst secs, getSection = map_of secs,
     Entities = [], TileEntities = [], Biomes = bio, dirty = False\<rparr>"

definition ex_dim :: "((int \<times> int) \<times> Chunk) list \<Rightarrow> Dimension" where
  "ex_dim chs = \<lparr>chunks = map_of chs, blocktypes = ex_types\<rparr>"

definition ex_state :: "Dimension \<Rightarrow> Dimension \<Rightarrow> State" where
  "ex_state dest source = \<lparr>dims = (\<lambda>d. if d = 0 then dest else source), trace = [], i = 0,
     entitiesCopied = 0, tileEntitiesCopied = 0, entitiesSeen = 0, tileEntitiesSeen = 0,
     allChanged = [], sourceBiomeMask = None\<rparr>"

text \<open>The selection of the whole section at the origin of chunk (0, 0).\<close>

definition ex_sel :: Selection where
  "ex_sel = \<lparr>origin = (0, 0, 0), size = (16, 16, 16), Selection_chunkPositions = [(0, 0)],
     section_mask = (\<lambda>cx cy cz. if cx = 0 \<and> cy = 0 \<and> cz = 0 then Some (\<lambda>idx. True) else None),
     contains = (\<lambda>(x, y, z). 0 \<le> x \<and> x < 16 \<and> 0 \<le> y \<and> y < 16 \<and> 0 \<le> z \<and> z < 16)\<rparr>"

text \<open>The selection of the one voxel at the origin.\<close>

definition ex_sel1 :: Selection where
  "ex_sel1 = \<lparr>origin = (0, 0, 0), size = (1, 1, 1), Selection_chunkPositions = [(0, 0)],
     section_mask = (\<lambda>cx cy cz. if cx = 0 \<and> cy = 0 \<and> cz = 0 then Some (\<lambda>idx. idx = (0, 0, 0)) else None),
     contains = (\<lambda>p. p = (0, 0, 0))\<rparr>"

definition ex_args :: "dimid \<Rightarrow> Selection \<Rightarrow> Vector \<Rightarrow> lights \<Rightarrow> Args" where
  "ex_args source sel point lightsMode = \<lparr>destDim = 0, sourceDim = source, sourceSelection = sel,
     destinationPoint = point, blocksToCopy = None, entities = True, create = False, biomes = False,
     updateLights = lightsMode\<rparr>"

text \<open>A destination of air with one section, and a source of stone.\<close>

definition air1 :: Dimension where
  "air1 = ex_dim [((0, 0), ex_chunk [(0, ex_section 0)] None)]"


definition stone1 :: Dimension where
  "stone1 = ex_dim [((0, 0), ex_chunk [(0, ex_section 1)] None)]"

text \<open>A dimension of air with one stone block at the origin.\<close>

definition mixed1 :: Dimension where
  "mixed1 = ex_dim [((0, 0), ex_chunk [(0, \<lparr>Blocks = (\<lambda>idx. if idx = (0, 0, 0) then 1 else 0), Data = (\<lambda>idx. 0)\<rparr>)] None)]"

text \<open>A source whose columns have biome 7 and a destination of two chunks with biome 1.\<close>

definition biome_src :: Dimension where
  "biome_src = ex_dim [((0, 0), ex_chunk [(0, ex_section 1)] (Some (\<lambda>col. 7)))]"

definition biome_dst :: Dimension where
  "biome_dst = ex_dim [((0, 0), ex_chunk [(0, ex_section 0)] (Some (\<lambda>col. 1))),
                       ((1, 0), ex_chunk [] (Some (\<lambda>col. 1)))]"

definition ents_src :: Dimension where
  "ents_src = ex_dim [((0, 0),
     (ex_chunk [(0, ex_section 1)] None)
       \<lparr>Entities := [\<lparr>Position = (0, 0, 0), payload = 1\<rparr>],
        TileEntities := [\<lparr>Position = (0, 0, 0), payload = 2\<rparr>, \<lparr>Position = (5, 0, 0), payload = 3\<rparr>]\<rparr>)]"

definition ex_consts :: "Vector \<Rightarrow> Consts" where
  "ex_consts offset = \<lparr>c_chunkCount = 1, makeSourceMask = unmaskedSourceMask, copyOffset = offset,
     convertBlocks = (\<lambda>b. b)\<rparr>"

text \<open>The same environment with a collaborator that makes sections of air.\<close>

definition ex_env2 :: Env where
  "ex_env2 = ex_env\<lparr>newSection := (\<lambda>cy. Some (ex_section 0))\<rparr>"


section \<open>Bounds of boxes\<close>

lemma volume_ZeroBox: "volume ZeroBox = 0"
  by (simp add: volume_def ZeroBox_def)

lemma bounds_mk [simp]:
  "minx \<lparr>origin = (x, y, z), size = (w, h, l)\<rparr> = x"
  "miny \<lparr>origin = (x, y, z), size = (w, h, l)\<rparr> = y"
  "minz \<lparr>origin = (x, y, z), size = (w, h, l)\<rparr> = z"
  "maxx \<lparr>origin = (x, y, z), size = (w, h, l)\<rparr> = x + w"
  "maxy \<lparr>origin = (x, y, z), size = (w, h, l)\<rparr> = y + h"
  "maxz \<lparr>origin = (x, y, z), size = (w, h, l)\<rparr> = z + l"
  by (simp_all add: minx_def miny_def minz_def maxx_def maxy_def maxz_def)

lemma intersect_nonzero:
  assumes "volume (intersect a b) \<noteq> 0"
  shows "minx (intersect a b) = max (minx a) (minx b)"
    and "miny (intersect a b) = max (miny a) (miny b)"
    and "minz (intersect a b) = max (minz a) (minz b)"
    and "maxx (intersect a b) = min (maxx a) (maxx b)"
    and "maxy (intersect a b) = min (maxy a) (maxy b)"
    and "maxz (intersect a b) = min (maxz a) (maxz b)"
    and "minx (intersect a b) < maxx (intersect a b)"
    and "miny (intersect a b) < maxy (intersect a b)"
    and "minz (intersect a b) < maxz (intersect a b)"
proof -
  let ?lo = "(max (minx a) (minx b), max (miny a) (miny b), max (minz a) (minz b))"
  let ?hi = "(min (maxx a) (maxx b), min (maxy a) (maxy b), min (maxz a) (maxz b))"
  have nz: "\<not> (fst (vsub ?hi ?lo) \<le> 0 \<or> fst (snd (vsub ?hi ?lo)) \<le> 0 \<or> snd (snd (vsub ?hi ?lo)) \<le> 0)"
    using assms by (auto simp: intersect_def Let_def volume_ZeroBox)
  then have eq: "intersect a b = \<lparr>origin = ?lo, size = vsub ?hi ?lo\<rparr>"
    by (simp add: intersect_def Let_def)
  show "minx (intersect a b) = max (minx a) (minx b)"
    and "miny (intersect a b) = max (miny a) (miny b)"
    and "minz (intersect a b) = max (minz a) (minz b)"
    and "maxx (intersect a b) = min (maxx a) (maxx b)"
    and "maxy (intersect a b) = min (maxy a) (maxy b)"
    and "maxz (intersect a b) = min (maxz a) (maxz b)"
    unfolding eq by (simp_all add: vsub_def)
  show "minx (intersect a b) < maxx (intersect a b)"
    and "miny (intersect a b) < maxy (intersect a b)"
    and "minz (intersect a b) < maxz (intersect a b)"
    using nz unfolding eq by (auto simp add: vsub_def)
qed

lemma SectionBox_bounds:
  "minx (SectionBox cx cy cz) = 16 * cx" "maxx (SectionBox cx cy cz) = 16 * cx + 16"
  "miny (SectionBox cx cy cz) = 16 * cy" "maxy (SectionBox cx cy cz) = 16 * cy + 16"
  "minz (SectionBox cx cy cz) = 16 * cz" "maxz (SectionBox cx cy cz) = 16 * cz + 16"
  by (simp_all add: SectionBox_def push_bit_eq_mult)

lemma sectionDestBox_bounds:
  "minx (sectionDestBox (scx, scz) scy (ox, oy, oz)) = 16 * scx + ox"
  "maxx (sectionDestBox (scx, scz) scy (ox, oy, oz)) = 16 * scx + ox + 16"
  "miny (sectionDestBox (scx, scz) scy (ox, oy, oz)) = 16 * scy + oy"
  "maxy (sectionDestBox (scx, scz) scy (ox, oy, oz)) = 16 * scy + oy + 16"
  "minz (sectionDestBox (scx, scz) scy (ox, oy, oz)) = 16 * scz + oz"
  "maxz (sectionDestBox (scx, scz) scy (ox, oy, oz)) = 16 * scz + oz + 16"
  by (simp_all add: sectionDestBox_def SectionBox_def Let_def vadd_def push_bit_eq_mult)

lemma sourceIntersect_bounds:
  "minx (sourceIntersect ix (ox, oy, oz)) = minx ix - ox"
  "maxx (sourceIntersect ix (ox, oy, oz)) = maxx ix - ox"
  "miny (sourceIntersect ix (ox, oy, oz)) = miny ix - oy"
  "maxy (sourceIntersect ix (ox, oy, oz)) = maxy ix - oy"
  "minz (sourceIntersect ix (ox, oy, oz)) = minz ix - oz"
  "maxz (sourceIntersect ix (ox, oy, oz)) = maxz ix - oz"
  by (cases ix; cases "origin ix"; cases "size ix";
      simp add: sourceIntersect_def vsub_def minx_def miny_def minz_def maxx_def maxy_def maxz_def)+

text \<open>
  The bounds of a non-empty intersection of a destination section with a moved source
  section, in one place for the proofs below.
\<close>

lemma cell_bounds:
  assumes "volume (cellIntersect (sectionDestBox (scx, scz) scy (ox, oy, oz)) (dcx, dcz) dcy) \<noteq> 0"
  defines "ix \<equiv> cellIntersect (sectionDestBox (scx, scz) scy (ox, oy, oz)) (dcx, dcz) dcy"
  shows "minx ix = max (16 * dcx) (16 * scx + ox)" "maxx ix = min (16 * dcx + 16) (16 * scx + ox + 16)"
    and "miny ix = max (16 * dcy) (16 * scy + oy)" "maxy ix = min (16 * dcy + 16) (16 * scy + oy + 16)"
    and "minz ix = max (16 * dcz) (16 * scz + oz)" "maxz ix = min (16 * dcz + 16) (16 * scz + oz + 16)"
    and "minx ix < maxx ix" "miny ix < maxy ix" "minz ix < maxz ix"
proof -
  have nz: "volume (intersect (SectionBox dcx dcy dcz) (sectionDestBox (scx, scz) scy (ox, oy, oz))) \<noteq> 0"
    and ixd: "ix = intersect (SectionBox dcx dcy dcz) (sectionDestBox (scx, scz) scy (ox, oy, oz))"
    using assms(1) by (simp_all add: ix_def cellIntersect_def)
  note b = intersect_nonzero[OF nz, folded ixd]
  show "minx ix = max (16 * dcx) (16 * scx + ox)" "maxx ix = min (16 * dcx + 16) (16 * scx + ox + 16)"
    and "miny ix = max (16 * dcy) (16 * scy + oy)" "maxy ix = min (16 * dcy + 16) (16 * scy + oy + 16)"
    and "minz ix = max (16 * dcz) (16 * scz + oz)" "maxz ix = min (16 * dcz + 16) (16 * scz + oz + 16)"
    using b(1-6) by (simp_all add: SectionBox_bounds sectionDestBox_bounds)
  show "minx ix < maxx ix" "miny ix < maxy ix" "minz ix < maxz ix"
    using b(7-9) by simp_all
qed

section \<open>Equal extents of the two index ranges\<close>

text \<open>
  Claim C8. For every translation vector and every source section, a destination cell
  whose intersection with the moved source section has a volume other than zero gets a
  destination index range and a source index range that lie within 0..16 on every axis
  (nothing is clipped, no bound is negative) and have the same extent on every axis.
\<close>

theorem C8_equal_extents:
  assumes "volume (cellIntersect (sectionDestBox sourceCpos sourceCy offset) destCpos destCy) \<noteq> 0"
  shows "slices_exact (destSlices (cellIntersect (sectionDestBox sourceCpos sourceCy offset) destCpos destCy) destCpos destCy)
       \<and> slices_exact (sourceSlices (cellIntersect (sectionDestBox sourceCpos sourceCy offset) destCpos destCy) offset sourceCpos sourceCy)
       \<and> slices_extents (sourceSlices (cellIntersect (sectionDestBox sourceCpos sourceCy offset) destCpos destCy) offset sourceCpos sourceCy)
         = slices_extents (destSlices (cellIntersect (sectionDestBox sourceCpos sourceCy offset) destCpos destCy) destCpos destCy)"
proof -
  obtain ox oy oz where o: "offset = (ox, oy, oz)" by (cases offset) auto
  obtain scx scz where s: "sourceCpos = (scx, scz)" by (cases sourceCpos) auto
  obtain dcx dcz where d: "destCpos = (dcx, dcz)" by (cases destCpos) auto
  define ix where "ix = cellIntersect (sectionDestBox (scx, scz) sourceCy (ox, oy, oz)) (dcx, dcz) destCy"
  have nz: "volume (cellIntersect (sectionDestBox (scx, scz) sourceCy (ox, oy, oz)) (dcx, dcz) destCy) \<noteq> 0"
    using assms by (simp add: o s d)
  note b = cell_bounds[OF nz, folded ix_def]
  have "slices_exact (destSlices ix (dcx, dcz) destCy)"
    using b by (simp add: slices_exact_def destSlices_def exact_slice_def push_bit_eq_mult) linarith
  moreover have "slices_exact (sourceSlices ix (ox, oy, oz) (scx, scz) sourceCy)"
    using b by (simp add: slices_exact_def sourceSlices_def Let_def sourceIntersect_bounds
        exact_slice_def push_bit_eq_mult) linarith
  moreover have "slices_extents (sourceSlices ix (ox, oy, oz) (scx, scz) sourceCy)
      = slices_extents (destSlices ix (dcx, dcz) destCy)"
    by (simp add: slices_extents_def sourceSlices_def destSlices_def Let_def sourceIntersect_bounds
        extent_def)
  ultimately show ?thesis
    unfolding o s d ix_def by simp
qed

theorem C8_equal_extents_witness:
  "volume (cellIntersect (sectionDestBox (0, 0) 0 (15, 15, 14)) (0, 0) 0) \<noteq> 0
   \<and> destSlices (cellIntersect (sectionDestBox (0, 0) 0 (15, 15, 14)) (0, 0) 0) (0, 0) 0
       = ((15, 16), (14, 16), (15, 16))
   \<and> sourceSlices (cellIntersect (sectionDestBox (0, 0) 0 (15, 15, 14)) (0, 0) 0) (15, 15, 14) (0, 0) 0
       = ((0, 1), (0, 2), (0, 1))
   \<and> slices_extents ((0, 1), (0, 2), (0, 1)) = slices_extents ((15, 16), (14, 16), (15, 16))"
proof -
  have ix: "cellIntersect (sectionDestBox (0, 0) 0 (15, 15, 14)) (0, 0) 0
      = \<lparr>origin = (15, 15, 14), size = (1, 1, 2)\<rparr>"
    by (simp add: cellIntersect_def sectionDestBox_def SectionBox_def intersect_def Let_def
        vadd_def vsub_def)
  have nz: "volume (cellIntersect (sectionDestBox (0, 0) 0 (15, 15, 14)) (0, 0) 0) \<noteq> 0"
    by (simp add: ix volume_def)
  have d: "destSlices (cellIntersect (sectionDestBox (0, 0) 0 (15, 15, 14)) (0, 0) 0) (0, 0) 0
      = ((15, 16), (14, 16), (15, 16))"
    by (simp add: ix destSlices_def)
  have s: "sourceSlices (cellIntersect (sectionDestBox (0, 0) 0 (15, 15, 14)) (0, 0) 0) (15, 15, 14) (0, 0) 0
      = ((0, 1), (0, 2), (0, 1))"
    by (simp add: ix sourceSlices_def sourceIntersect_def vsub_def Let_def)
  from C8_equal_extents[OF nz] nz d s show ?thesis by simp
qed

section \<open>Loops and relations between states\<close>

lemma forEach_rel:
  assumes refl: "\<And>s. R s s"
    and trans: "\<And>s s' s''. R s s' \<Longrightarrow> R s' s'' \<Longrightarrow> R s s''"
    and step: "\<And>x s. x \<in> set xs \<Longrightarrow> R s (snd (body x s))"
  shows "R s (snd (forEach body xs s))"
  using step
proof (induction xs arbitrary: s)
  case Nil
  show ?case by (simp add: refl)
next
  case (Cons x xs)
  obtain err s' where b: "body x s = (err, s')" by (cases "body x s")
  have r1: "R s s'" using Cons.prems[of x s] b by simp
  show ?case
  proof (cases err)
    case None
    have "R s' (snd (forEach body xs s'))"
      by (rule Cons.IH) (simp add: Cons.prems)
    with r1 show ?thesis using b None by (auto intro: trans)
  next
    case (Some e)
    with r1 b show ?thesis by simp
  qed
qed

lemma fold_rel:
  assumes refl: "\<And>s. R s s"
    and trans: "\<And>s s' s''. R s s' \<Longrightarrow> R s' s'' \<Longrightarrow> R s s''"
    and step: "\<And>x s. x \<in> set xs \<Longrightarrow> R s (f x s)"
  shows "R s (fold f xs s)"
  using step
proof (induction xs arbitrary: s)
  case Nil
  show ?case by (simp add: refl)
next
  case (Cons x xs)
  have "R s (f x s)" by (simp add: Cons.prems)
  moreover have "R (f x s) (fold f xs (f x s))"
    by (rule Cons.IH) (simp add: Cons.prems)
  ultimately show ?case by (auto intro: trans)
qed

section \<open>Basic state updates\<close>

lemma emit_simps [simp]:
  "dims (emit ev st) = dims st"
  "trace (emit ev st) = trace st @ [ev]"
  "i (emit ev st) = i st"
  "allChanged (emit ev st) = allChanged st"
  "sourceBiomeMask (emit ev st) = sourceBiomeMask st"
  by (simp_all add: emit_def)

lemma setDim_simps [simp]:
  "dims (setDim d dim st) = (dims st)(d := dim)"
  "trace (setDim d dim st) = trace st"
  "i (setDim d dim st) = i st"
  "allChanged (setDim d dim st) = allChanged st"
  "sourceBiomeMask (setDim d dim st) = sourceBiomeMask st"
  by (simp_all add: setDim_def)

lemma setChunk_simps [simp]:
  "dims (setChunk d cpos ch st) = (dims st)(d := (dims st d)\<lparr>chunks := (chunks (dims st d))(cpos \<mapsto> ch)\<rparr>)"
  "trace (setChunk d cpos ch st) = trace st"
  "i (setChunk d cpos ch st) = i st"
  "allChanged (setChunk d cpos ch st) = allChanged st"
  "sourceBiomeMask (setChunk d cpos ch st) = sourceBiomeMask st"
  by (simp_all add: setChunk_def)

section \<open>Only the destination dimension is written\<close>

lemma frame_refl: "frame dst st st"
  by (simp add: frame_def)

lemma frame_trans: "frame dst st st' \<Longrightarrow> frame dst st' st'' \<Longrightarrow> frame dst st st''"
  by (simp add: frame_def)

lemma frame_same_dims: "dims st' = dims st \<Longrightarrow> frame dst st st'"
  by (simp add: frame_def)

lemma frame_getChunk_create: "frame d st (getChunk_create env d cpos st)"
  by (simp add: getChunk_create_def frame_def split: option.splits)

lemma frame_getSection_create: "frame d st (snd (getSection_create env d cpos cy st))"
  by (simp add: getSection_create_def frame_def split: option.splits)

lemma frame_setSection: "frame d st (setSection d cpos cy sec st)"
  by (simp add: setSection_def frame_def split: option.splits)

lemma frame_markDirty: "frame d st (markDirty d cpos st)"
  by (simp add: markDirty_def frame_def split: option.splits)

lemma dims_relightCell [simp]: "dims (relightCell args ix changed st) = dims st"
  by (simp add: relightCell_def split: prod.splits)

lemma frame_copyCell:
  "frame (destDim args) st (snd (copyCell env args c sourceMask sourceCpos sourceCy destBox destCpos destCy st))"
proof -
  have g: "frame (destDim args) st (snd (getSection_create env (destDim args) destCpos destCy st))"
    by (rule frame_getSection_create)
  show ?thesis
    using g
    by (auto simp: copyCell_def Let_def frame_refl frame_def setSection_def split: prod.splits option.splits)
qed

lemma frame_copyDestChunk:
  "frame (destDim args) st (snd (copyDestChunk env args c sourceMask sourceCpos sourceCy destBox destCpos st))"
proof -
  let ?st0 = "getChunk_create env (destDim args) destCpos st"
  let ?r = "forEach (copyCell env args c sourceMask sourceCpos sourceCy destBox destCpos)
              (sectionPositions destBox (fst destCpos) (snd destCpos)) ?st0"
  have "frame (destDim args) ?st0 (snd ?r)"
    by (rule forEach_rel[where R="frame (destDim args)"]) (auto intro: frame_refl frame_trans frame_copyCell)
  with frame_getChunk_create[of "destDim args" st env destCpos]
  have r: "frame (destDim args) st (snd ?r)" by (rule frame_trans)
  show ?thesis
    using r frame_markDirty[of "destDim args" "snd ?r" destCpos]
    by (auto simp: copyDestChunk_def frame_refl split: prod.splits option.splits intro: frame_trans)
qed

lemma frame_copySection:
  "frame (destDim args) st (snd (copySection env args c hasBiomes sourceCpos sourceCy st))"
proof -
  have loop: "frame (destDim args) s
      (snd (forEach (copyDestChunk env args c m sourceCpos sourceCy b) xs s))" for s m b xs
    by (rule forEach_rel[where R="frame (destDim args)"]) (auto intro: frame_refl frame_trans frame_copyDestChunk)
  have ob: "frame (destDim args) st (orBiomeMask m st)" for m
    by (simp add: orBiomeMask_def frame_def)
  show ?thesis
    by (auto simp: copySection_def Let_def frame_refl split: option.splits sum.splits
        intro: loop frame_trans[OF ob loop])
qed

lemma frame_setBlocks_Biomes: "frame d st (setBlocks_Biomes d xs zs vals st)"
proof -
  have one: "frame d s (setBiome d w s)" for w s
    by (cases w) (simp add: setBiome_def frame_def split: option.splits)
  have "frame d (emit (SetBiomes d xs zs vals) st) (setBlocks_Biomes d xs zs vals st)"
    unfolding setBlocks_Biomes_def
    by (rule fold_rel[where R="frame d"]) (auto intro: frame_refl frame_trans one)
  moreover have "frame d st (emit (SetBiomes d xs zs vals) st)" by (simp add: frame_def)
  ultimately show ?thesis by (rule frame_trans[rotated])
qed

lemma frame_copyBiomes: "frame (destDim args) st (copyBiomes args hasBiomes sourceCpos st)"
  by (auto simp: copyBiomes_def Let_def frame_refl frame_setBlocks_Biomes split: option.splits)

lemma dims_copyEntities [simp]: "dims (copyEntities args c sourceCpos st) = dims st"
proof -
  have "dims (fold (copyEntity args c) es s) = dims s" for es s
    by (induction es arbitrary: s) (simp_all add: copyEntity_def)
  then show ?thesis by (simp add: copyEntities_def split: option.splits)
qed

lemma dims_copyTileEntities [simp]: "dims (copyTileEntities args c sourceCpos st) = dims st"
proof -
  have "dims (fold (copyTileEntity args c) es s) = dims s" for es s
    by (induction es arbitrary: s) (simp_all add: copyTileEntity_def)
  then show ?thesis by (simp add: copyTileEntities_def split: option.splits)
qed

lemma frame_chunkBody: "frame (destDim args) st (snd (chunkBody env args c sourceCpos st))"
proof -
  have loop: "frame (destDim args) s (snd (forEach (copySection env args c h sourceCpos) xs s))" for s h xs
    by (rule forEach_rel[where R="frame (destDim args)"]) (auto intro: frame_refl frame_trans frame_copySection)
  have init: "frame (destDim args) st (st\<lparr>sourceBiomeMask := m\<rparr>)" for m
    by (simp add: frame_def)
  have fin: "frame (destDim args) s (copyTileEntities args c sourceCpos (copyEntities args c sourceCpos (copyBiomes args h sourceCpos s)))" for s h
    using frame_copyBiomes[of args s h sourceCpos] by (simp add: frame_def)
  show ?thesis
  proof (cases "chunks (dims st (sourceDim args)) sourceCpos")
    case None
    then show ?thesis by (simp add: chunkBody_def frame_refl)
  next
    case (Some ch)
    define h where "h = (biomes args \<and> Biomes ch \<noteq> None)"
    define st0 where "st0 = (if h then st\<lparr>sourceBiomeMask := Some (\<lambda>col. False)\<rparr> else st)"
    obtain err s' where r: "forEach (copySection env args c h sourceCpos) (Chunk_sectionPositions ch) st0 = (err, s')"
      by (cases "forEach (copySection env args c h sourceCpos) (Chunk_sectionPositions ch) st0")
    have f0: "frame (destDim args) st st0" by (simp add: st0_def init frame_refl)
    have f1: "frame (destDim args) st0 s'" using loop[of st0 h "Chunk_sectionPositions ch"] r by simp
    have body: "chunkBody env args c sourceCpos st =
        (case err of Some e \<Rightarrow> (Some e, s')
         | None \<Rightarrow> (None, copyTileEntities args c sourceCpos (copyEntities args c sourceCpos (copyBiomes args h sourceCpos s'))))"
      using Some r by (simp add: chunkBody_def Let_def h_def st0_def split: option.splits)
    show ?thesis
      unfolding body using frame_trans[OF f0 f1] frame_trans[OF frame_trans[OF f0 f1] fin[of s' h]]
      by (cases err) simp_all
  qed
qed

section \<open>The generator and the loop over the chunk positions\<close>

declare exhaust.simps [simp del]

lemma epilogue_not_Yielded: "fst (epilogue env args st) \<noteq> Yielded n m"
  by (simp add: epilogue_def)

lemma exhaust_Suspended:
  "exhaust env args (Suspended c p rest) st =
     (case chunkBody env args c p st of
        (Some err, s1) \<Rightarrow> (Raised err, s1)
      | (None, s1) \<Rightarrow>
          (case advance env args c rest s1 of
             (Yielded n m, g', st') \<Rightarrow> exhaust env args g' st'
           | (StopIteration, g', st') \<Rightarrow> (StopIteration, st')
           | (Raised err, g', st') \<Rightarrow> (Raised err, st')))"
  by (subst exhaust.simps) (simp add: gen_next_def split: prod.splits option.splits outcome.splits)

lemma advance_exhaust:
  "(case advance env args c xs st of
      (Yielded n m, g', st') \<Rightarrow> exhaust env args g' st'
    | (StopIteration, g', st') \<Rightarrow> (StopIteration, st')
    | (Raised err, g', st') \<Rightarrow> (Raised err, st'))
   = finish env args (forEach (visitChunk env args c) xs st)"
proof (induction xs arbitrary: st)
  case Nil
  show ?case
    using epilogue_not_Yielded[of env args st]
    by (cases "epilogue env args st") (auto simp: finish_def split: outcome.splits)
next
  case (Cons p ps)
  show ?case
  proof (cases "containsChunk (dims st (sourceDim args)) p")
    case False
    then have v: "visitChunk env args c p st = (None, st)" by (simp add: visitChunk_def)
    from False show ?thesis using Cons.IH[of st] by (simp add: v)
  next
    case True
    let ?sy = "emit (Yield (i st + 1) (c_chunkCount c)) (st\<lparr>i := i st + 1\<rparr>)"
    obtain err s1 where b: "chunkBody env args c p ?sy = (err, s1)"
      by (cases "chunkBody env args c p ?sy")
    from True b have v: "visitChunk env args c p st = (err, s1)" by (simp add: visitChunk_def)
    from True have a: "advance env args c (p # ps) st = (Yielded (i st + 1) (c_chunkCount c), Suspended c p ps, ?sy)"
      by simp
    show ?thesis
    proof (cases err)
      case None
      show ?thesis
        unfolding a using Cons.IH[of s1] b None v by (simp add: exhaust_Suspended)
    next
      case (Some e)
      show ?thesis
        unfolding a using b Some v by (simp add: exhaust_Suspended finish_def)
    qed
  qed
qed

lemma exhaust_NotStarted:
  "exhaust env args NotStarted st =
     (case prologue env args st of
        Inl err \<Rightarrow> (Raised err, st)
      | Inr (c, st0) \<Rightarrow>
          finish env args (forEach (visitChunk env args c) (Selection_chunkPositions (sourceSelection args)) st0))"
proof (cases "prologue env args st")
  case (Inl err)
  then show ?thesis by (subst exhaust.simps) (simp add: gen_next_def)
next
  case (Inr r)
  obtain c st0 where r: "r = (c, st0)" by (cases r)
  show ?thesis
    using Inr r advance_exhaust[of env args c "Selection_chunkPositions (sourceSelection args)" st0, symmetric]
    by (subst exhaust.simps) (simp add: gen_next_def split: prod.splits outcome.splits)
qed

lemma dims_prologue: "prologue env args st = Inr (c, st0) \<Longrightarrow> dims st0 = dims st"
  by (auto simp: prologue_def Let_def split: sum.splits)

lemma dims_epilogue [simp]: "dims (snd (epilogue env args st)) = dims st"
  by (simp add: epilogue_def)

lemma dims_advance [simp]: "dims (snd (snd (advance env args c xs st))) = dims st"
proof (induction xs arbitrary: st)
  case Nil
  show ?case by (simp add: epilogue_def)
next
  case (Cons p ps)
  then show ?case by simp
qed

lemma frame_gen_next: "frame (destDim args) st (snd (snd (gen_next env args g st)))"
proof (cases g)
  case NotStarted
  then show ?thesis
    by (auto simp: gen_next_def frame_refl dest!: dims_prologue intro!: frame_same_dims split: sum.splits)
next
  case (Suspended c p rest)
  obtain err s1 where b: "chunkBody env args c p st = (err, s1)" by (cases "chunkBody env args c p st")
  have "frame (destDim args) st s1" using frame_chunkBody[of args st env c p] b by simp
  moreover have "frame (destDim args) s1 (snd (snd (advance env args c rest s1)))"
    by (rule frame_same_dims) simp
  ultimately show ?thesis using Suspended b
    by (cases err) (auto simp: gen_next_def intro: frame_trans)
next
  case Finished
  then show ?thesis by (simp add: gen_next_def frame_refl)
qed

lemma frame_gen_nexts: "frame (destDim args) st (snd (gen_nexts env args k g st))"
proof (induction k arbitrary: g st)
  case 0
  show ?case by (simp add: frame_refl)
next
  case (Suc k)
  obtain out g' st' where n: "gen_next env args g st = (out, g', st')" by (cases "gen_next env args g st")
  have "frame (destDim args) st st'" using frame_gen_next[of args st env g] n by simp
  with Suc.IH[where g=g' and st=st'] show ?case using n by (auto intro: frame_trans)
qed

lemma frame_visitChunk: "frame (destDim args) st (snd (visitChunk env args c p st))"
proof -
  let ?sy = "emit (Yield (i st + 1) (c_chunkCount c)) (st\<lparr>i := i st + 1\<rparr>)"
  have "frame (destDim args) st ?sy" by (simp add: frame_def)
  from frame_trans[OF this frame_chunkBody[of args ?sy env c p]]
  show ?thesis by (simp add: visitChunk_def frame_refl)
qed

lemma frame_exhaust: "frame (destDim args) st (snd (exhaust env args NotStarted st))"
proof (cases "prologue env args st")
  case (Inl err)
  then show ?thesis by (simp add: exhaust_NotStarted frame_refl)
next
  case (Inr r)
  obtain c st0 where r: "r = (c, st0)" by (cases r)
  let ?res = "forEach (visitChunk env args c) (Selection_chunkPositions (sourceSelection args)) st0"
  have f0: "frame (destDim args) st st0" using Inr r by (auto dest: dims_prologue intro: frame_same_dims)
  have f1: "frame (destDim args) st0 (snd ?res)"
    by (rule forEach_rel[where R="frame (destDim args)"]) (auto intro: frame_refl frame_trans frame_visitChunk)
  have f2: "frame (destDim args) (snd ?res) (snd (finish env args ?res))"
    by (cases ?res) (auto simp: finish_def frame_refl intro: frame_same_dims split: option.splits)
  show ?thesis
    using Inr r frame_trans[OF f0 frame_trans[OF f1 f2]] by (simp add: exhaust_NotStarted)
qed


section \<open>The source dimension\<close>

text \<open>
  Claim C9, as amended. When the destination dimension is not the same object as the
  source dimension, the operation never changes the source dimension: it is the same
  after any number of requests to the generator and after the run to its end (whether
  the run stops or raises). Nothing but the destination dimension is written.
\<close>

theorem C9_source_unchanged:
  assumes "destDim args \<noteq> sourceDim args"
  shows "dims (snd (gen_nexts env args k NotStarted st)) (sourceDim args) = dims st (sourceDim args)
       \<and> dims (snd (exhaust env args NotStarted st)) (sourceDim args) = dims st (sourceDim args)"
  using assms frame_gen_nexts[of args st env k NotStarted] frame_exhaust[of args st env]
  by (simp add: frame_def)

theorem C9_source_unchanged_witness:
  "destDim (ex_args 1 ex_sel (15, 15, 14) LightsEach) \<noteq> sourceDim (ex_args 1 ex_sel (15, 15, 14) LightsEach)
   \<and> dims (snd (gen_nexts ex_env (ex_args 1 ex_sel (15, 15, 14) LightsEach) 2 NotStarted (ex_state air1 stone1))) 1
       = dims (ex_state air1 stone1) 1
   \<and> dims (snd (exhaust ex_env (ex_args 1 ex_sel (15, 15, 14) LightsEach) NotStarted (ex_state air1 stone1))) 1
       = dims (ex_state air1 stone1) 1"
proof -
  have ne: "destDim (ex_args 1 ex_sel (15, 15, 14) LightsEach) \<noteq> sourceDim (ex_args 1 ex_sel (15, 15, 14) LightsEach)"
    by (simp add: ex_args_def)
  have s: "sourceDim (ex_args 1 ex_sel (15, 15, 14) LightsEach) = 1"
    by (simp add: ex_args_def)
  from C9_source_unchanged[OF ne, of ex_env 2 "ex_state air1 stone1"] ne show ?thesis
    by (simp only: s) simp
qed

text \<open>
  Claim C9 as stated fails when one dimension is both source and destination: the copy
  of the voxel at the origin to (15, 15, 14) within one dimension changes that
  dimension, which is the source.
\<close>

theorem C9_counterexample:
  "destDim (ex_args 0 ex_sel1 (15, 15, 14) LightsOff) = sourceDim (ex_args 0 ex_sel1 (15, 15, 14) LightsOff)
   \<and> blockAt (dims (ex_state mixed1 mixed1) (sourceDim (ex_args 0 ex_sel1 (15, 15, 14) LightsOff))) (15, 15, 14)
       = Some (0, 0)
   \<and> blockAt (dims (snd (exhaust ex_env (ex_args 0 ex_sel1 (15, 15, 14) LightsOff) NotStarted (ex_state mixed1 mixed1)))
         (sourceDim (ex_args 0 ex_sel1 (15, 15, 14) LightsOff))) (15, 15, 14)
       = Some (1, 0)"
  by code_simp

section \<open>Lighting updates in batched mode\<close>





lemma getChunk_create_simps [simp]:
  "trace (getChunk_create env d cpos st) = trace st"
  "allChanged (getChunk_create env d cpos st) = allChanged st"
  "i (getChunk_create env d cpos st) = i st"
  by (simp_all add: getChunk_create_def split: option.splits)

lemma getSection_create_simps [simp]:
  "trace (snd (getSection_create env d cpos cy st)) = trace st"
  "allChanged (snd (getSection_create env d cpos cy st)) = allChanged st"
  "i (snd (getSection_create env d cpos cy st)) = i st"
  by (simp_all add: getSection_create_def split: option.splits)

lemma setSection_simps [simp]:
  "trace (setSection d cpos cy sec st) = trace st"
  "allChanged (setSection d cpos cy sec st) = allChanged st"
  "i (setSection d cpos cy sec st) = i st"
  by (simp_all add: setSection_def split: option.splits)

lemma markDirty_simps [simp]:
  "trace (markDirty d cpos st) = trace st"
  "allChanged (markDirty d cpos st) = allChanged st"
  "i (markDirty d cpos st) = i st"
  by (simp_all add: markDirty_def split: option.splits)











text \<open>The body of the loop over the chunks, once the source chunk is known.\<close>

lemma chunkBody_unfold:
  assumes "chunks (dims st (sourceDim args)) sourceCpos = Some ch"
  shows "chunkBody env args c sourceCpos st =
     (case forEach (copySection env args c (biomes args \<and> Biomes ch \<noteq> None) sourceCpos)
             (Chunk_sectionPositions ch)
             (if biomes args \<and> Biomes ch \<noteq> None then st\<lparr>sourceBiomeMask := Some (\<lambda>col. False)\<rparr> else st) of
        (Some err, st1) \<Rightarrow> (Some err, st1)
      | (None, st1) \<Rightarrow>
          (None, copyTileEntities args c sourceCpos
                   (copyEntities args c sourceCpos
                      (copyBiomes args (biomes args \<and> Biomes ch \<noteq> None) sourceCpos st1))))"
  unfolding chunkBody_def Let_def assms by (simp only: option.simps)

lemma chunkBody_rel:
  assumes refl: "\<And>s. R s s"
    and trans: "\<And>s s' s''. R s s' \<Longrightarrow> R s' s'' \<Longrightarrow> R s s''"
    and init: "\<And>s m. R s (s\<lparr>sourceBiomeMask := m\<rparr>)"
    and sect: "\<And>h cy s. R s (snd (copySection env args c h sourceCpos cy s))"
    and bio: "\<And>h s. R s (copyBiomes args h sourceCpos s)"
    and ent: "\<And>s. R s (copyEntities args c sourceCpos s)"
    and tile: "\<And>s. R s (copyTileEntities args c sourceCpos s)"
  shows "R st (snd (chunkBody env args c sourceCpos st))"
proof (cases "chunks (dims st (sourceDim args)) sourceCpos")
  case None
  then show ?thesis by (simp add: chunkBody_def refl)
next
  case (Some ch)
  define h where "h = (biomes args \<and> Biomes ch \<noteq> None)"
  define st0 where "st0 = (if h then st\<lparr>sourceBiomeMask := Some (\<lambda>col. False)\<rparr> else st)"
  obtain err s' where r: "forEach (copySection env args c h sourceCpos) (Chunk_sectionPositions ch) st0 = (err, s')"
    by (cases "forEach (copySection env args c h sourceCpos) (Chunk_sectionPositions ch) st0")
  have f0: "R st st0" by (simp add: st0_def init refl)
  have "R st0 (snd (forEach (copySection env args c h sourceCpos) (Chunk_sectionPositions ch) st0))"
    by (rule forEach_rel[where R=R]) (auto intro: refl trans sect)
  then have f1: "R st0 s'" using r by simp
  have f2: "R s' (copyTileEntities args c sourceCpos (copyEntities args c sourceCpos (copyBiomes args h sourceCpos s')))"
    by (blast intro: trans bio ent tile)
  have body: "chunkBody env args c sourceCpos st =
      (case err of Some e \<Rightarrow> (Some e, s')
       | None \<Rightarrow> (None, copyTileEntities args c sourceCpos (copyEntities args c sourceCpos (copyBiomes args h sourceCpos s'))))"
    using r by (simp add: chunkBody_unfold[OF Some] h_def st0_def split: option.splits)
  show ?thesis
    unfolding body using trans[OF f0 f1] trans[OF trans[OF f0 f1] f2]
    by (cases err) simp_all
qed







section \<open>Entities and tile entities\<close>

lemma added_append [simp]:
  "entitiesAdded (xs @ ys) = entitiesAdded xs @ entitiesAdded ys"
  "tileEntitiesAdded (xs @ ys) = tileEntitiesAdded xs @ tileEntitiesAdded ys"
  by (simp_all add: entitiesAdded_def tileEntitiesAdded_def)

lemma added_single [simp]:
  "entitiesAdded [AddEntity d e] = [(d, e)]" "tileEntitiesAdded [AddEntity d e] = []"
  "entitiesAdded [AddTileEntity d e] = []" "tileEntitiesAdded [AddTileEntity d e] = [(d, e)]"
  "entitiesAdded [Yield n m] = []" "tileEntitiesAdded [Yield n m] = []"
  "entitiesAdded [WriteBlocks d p cy] = []" "tileEntitiesAdded [WriteBlocks d p cy] = []"
  "entitiesAdded [Relight d x y z] = []" "tileEntitiesAdded [Relight d x y z] = []"
  "entitiesAdded [SetBiomes d xs zs vs] = []" "tileEntitiesAdded [SetBiomes d xs zs vs] = []"
  by (simp_all add: entitiesAdded_def tileEntitiesAdded_def)

lemma calm_refl: "calm st st"
  by (simp add: calm_def)

lemma calm_trans: "calm st st' \<Longrightarrow> calm st' st'' \<Longrightarrow> calm st st''"
  unfolding calm_def by (auto; metis)

lemma calm_same: "dims st' = dims st \<Longrightarrow> trace st' = trace st \<Longrightarrow> calm st st'"
  by (simp add: calm_def)

lemma calm_getChunk_create: "calm st (getChunk_create env d cpos st)"
  by (auto simp: calm_def getChunk_create_def split: option.splits)

lemma calm_getSection_create: "calm st (snd (getSection_create env d cpos cy st))"
  by (auto simp: calm_def getSection_create_def split: option.splits)

lemma calm_setSection: "calm st (setSection d cpos cy sec st)"
  by (auto simp: calm_def setSection_def split: option.splits)

lemma calm_markDirty: "calm st (markDirty d cpos st)"
  by (auto simp: calm_def markDirty_def split: option.splits)

lemma calm_relightCell: "calm st (relightCell args ix changed st)"
  by (auto simp: calm_def relightCell_def split: prod.splits)

lemma calm_emit_write: "calm st (emit (WriteBlocks d p cy) st)"
  by (simp add: calm_def)

lemma calm_copyCell:
  "calm st (snd (copyCell env args c sourceMask sourceCpos sourceCy destBox destCpos destCy st))"
proof -
  have w: "calm s (relightCell args ix changed (emit (WriteBlocks d p cy) (setSection d p cy sec s)))"
    for s ix changed d p cy sec
    by (blast intro: calm_trans calm_setSection calm_emit_write calm_relightCell)
  have g: "calm st (snd (getSection_create env (destDim args) destCpos destCy st))"
    by (rule calm_getSection_create)
  show ?thesis
    using g
    by (auto simp: copyCell_def Let_def calm_refl split: prod.splits option.splits
        intro: calm_trans[OF _ w])
qed

lemma calm_copyDestChunk:
  "calm st (snd (copyDestChunk env args c sourceMask sourceCpos sourceCy destBox destCpos st))"
proof -
  let ?st0 = "getChunk_create env (destDim args) destCpos st"
  let ?r = "forEach (copyCell env args c sourceMask sourceCpos sourceCy destBox destCpos)
              (sectionPositions destBox (fst destCpos) (snd destCpos)) ?st0"
  have "calm ?st0 (snd ?r)"
    by (rule forEach_rel[where R=calm]) (auto intro: calm_refl calm_trans calm_copyCell)
  with calm_getChunk_create[of st env "destDim args" destCpos]
  have r: "calm st (snd ?r)" by (rule calm_trans)
  show ?thesis
    using r calm_trans[OF r calm_markDirty[of "snd ?r" "destDim args" destCpos]]
    by (auto simp: copyDestChunk_def calm_refl split: prod.splits option.splits)
qed

lemma calm_copySection:
  "calm st (snd (copySection env args c hasBiomes sourceCpos sourceCy st))"
proof -
  have loop: "calm s (snd (forEach (copyDestChunk env args c m sourceCpos sourceCy b) xs s))" for s m b xs
    by (rule forEach_rel[where R=calm]) (auto intro: calm_refl calm_trans calm_copyDestChunk)
  have ob: "calm st (orBiomeMask m st)" for m
    by (rule calm_same) (simp_all add: orBiomeMask_def)
  show ?thesis
    by (auto simp: copySection_def Let_def calm_refl split: option.splits sum.splits
        intro: loop calm_trans[OF ob loop])
qed

lemma calm_setBlocks_Biomes: "calm st (setBlocks_Biomes d xs zs vals st)"
proof -
  have one: "calm s (setBiome d w s)" for w s
    by (cases w) (auto simp: setBiome_def calm_def split: option.splits)
  have "calm (emit (SetBiomes d xs zs vals) st) (setBlocks_Biomes d xs zs vals st)"
    unfolding setBlocks_Biomes_def
    by (rule fold_rel[where R=calm]) (auto intro: calm_refl calm_trans one)
  moreover have "calm st (emit (SetBiomes d xs zs vals) st)" by (simp add: calm_def)
  ultimately show ?thesis by (rule calm_trans[rotated])
qed

lemma calm_copyBiomes: "calm st (copyBiomes args hasBiomes sourceCpos st)"
  by (auto simp: copyBiomes_def Let_def calm_refl calm_setBlocks_Biomes split: option.splits)

lemma fold_copyEntity:
  "dims (fold (copyEntity args c) es s) = dims s
   \<and> entitiesAdded (trace (fold (copyEntity args c) es s)) = entitiesAdded (trace s) @ migrated args (copyOffset c) es
   \<and> tileEntitiesAdded (trace (fold (copyEntity args c) es s)) = tileEntitiesAdded (trace s)"
  by (induction es arbitrary: s) (simp_all add: copyEntity_def migrated_def)

lemma fold_copyTileEntity:
  "dims (fold (copyTileEntity args c) es s) = dims s
   \<and> tileEntitiesAdded (trace (fold (copyTileEntity args c) es s)) = tileEntitiesAdded (trace s) @ migrated args (copyOffset c) es
   \<and> entitiesAdded (trace (fold (copyTileEntity args c) es s)) = entitiesAdded (trace s)"
  by (induction es arbitrary: s) (simp_all add: copyTileEntity_def migrated_def)

text \<open>
  Claim C7. For every source chunk that the operation processes to the end of the loop
  body, the calls of \<open>addTileEntity\<close> it makes are exactly the translated copies of the
  chunk's tile entities whose position satisfies the selection's containment test,
  whatever the \<open>entities\<close> flag is; the calls of \<open>addEntity\<close> are the translated copies of
  the chunk's entities that satisfy the test when the flag is set, and none when it is not.
\<close>

theorem C7_entities_and_tile_entities:
  assumes "chunks (dims st (sourceDim args)) sourceCpos = Some sourceChunk"
    and "chunkBody env args c sourceCpos st = (None, st')"
  shows "tileEntitiesAdded (trace st')
           = tileEntitiesAdded (trace st) @ migrated args (copyOffset c) (TileEntities sourceChunk)
       \<and> entitiesAdded (trace st')
           = entitiesAdded (trace st)
             @ (if entities args then migrated args (copyOffset c) (Entities sourceChunk) else [])"
proof -
  define h where "h = (biomes args \<and> Biomes sourceChunk \<noteq> None)"
  define st0 where "st0 = (if h then st\<lparr>sourceBiomeMask := Some (\<lambda>col. False)\<rparr> else st)"
  obtain err s1 where r: "forEach (copySection env args c h sourceCpos) (Chunk_sectionPositions sourceChunk) st0 = (err, s1)"
    by (cases "forEach (copySection env args c h sourceCpos) (Chunk_sectionPositions sourceChunk) st0")
  define s2 where "s2 = copyBiomes args h sourceCpos s1"
  define s3 where "s3 = copyEntities args c sourceCpos s2"
  from assms(2) r have err: "err = None" and st': "st' = copyTileEntities args c sourceCpos s3"
    by (auto simp: chunkBody_unfold[OF assms(1)] h_def st0_def s2_def s3_def split: option.splits)
  have c0: "calm st st0" by (simp add: st0_def calm_def)
  have "calm st0 (snd (forEach (copySection env args c h sourceCpos) (Chunk_sectionPositions sourceChunk) st0))"
    by (rule forEach_rel[where R=calm]) (auto intro: calm_refl calm_trans calm_copySection)
  then have c1: "calm st0 s1" using r by simp
  have c2: "calm st s2"
    unfolding s2_def by (blast intro: calm_trans c0 c1 calm_copyBiomes)
  from c2 assms(1) obtain ch2 where ch2: "chunks (dims s2 (sourceDim args)) sourceCpos = Some ch2"
    "Entities ch2 = Entities sourceChunk" "TileEntities ch2 = TileEntities sourceChunk"
    unfolding calm_def by blast
  have e3: "dims s3 = dims s2"
    "entitiesAdded (trace s3) = entitiesAdded (trace s2) @ (if entities args then migrated args (copyOffset c) (Entities sourceChunk) else [])"
    "tileEntitiesAdded (trace s3) = tileEntitiesAdded (trace s2)"
    using ch2 fold_copyEntity[of args c "Entities ch2" "s2\<lparr>entitiesSeen := entitiesSeen s2 + length (Entities ch2)\<rparr>"]
    by (auto simp: s3_def copyEntities_def)
  have e4: "tileEntitiesAdded (trace st') = tileEntitiesAdded (trace s3) @ migrated args (copyOffset c) (TileEntities sourceChunk)"
    "entitiesAdded (trace st') = entitiesAdded (trace s3)"
    using ch2 e3(1) fold_copyTileEntity[of args c "TileEntities ch2" "s3\<lparr>tileEntitiesSeen := tileEntitiesSeen s3 + length (TileEntities ch2)\<rparr>"]
    by (auto simp: st' copyTileEntities_def)
  from c2 have "entitiesAdded (trace s2) = entitiesAdded (trace st)" "tileEntitiesAdded (trace s2) = tileEntitiesAdded (trace st)"
    by (simp_all add: calm_def)
  with e3 e4 show ?thesis by simp
qed


theorem C7_entities_and_tile_entities_witness:
  "chunks (dims (ex_state air1 ents_src) (sourceDim ((ex_args 1 ex_sel1 (15, 15, 14) LightsOff)\<lparr>entities := False\<rparr>))) (0, 0) \<noteq> None
   \<and> fst (chunkBody ex_env ((ex_args 1 ex_sel1 (15, 15, 14) LightsOff)\<lparr>entities := False\<rparr>) (ex_consts (15, 15, 14)) (0, 0)
        (ex_state air1 ents_src)) = None
   \<and> tileEntitiesAdded (trace (snd (chunkBody ex_env ((ex_args 1 ex_sel1 (15, 15, 14) LightsOff)\<lparr>entities := False\<rparr>)
        (ex_consts (15, 15, 14)) (0, 0) (ex_state air1 ents_src))))
       = [(0, \<lparr>Position = (15, 15, 14), payload = 2\<rparr>)]
   \<and> entitiesAdded (trace (snd (chunkBody ex_env ((ex_args 1 ex_sel1 (15, 15, 14) LightsOff)\<lparr>entities := False\<rparr>)
        (ex_consts (15, 15, 14)) (0, 0) (ex_state air1 ents_src))))
       = []"
proof -
  let ?a = "(ex_args 1 ex_sel1 (15, 15, 14) LightsOff)\<lparr>entities := False\<rparr>"
  let ?st = "ex_state air1 ents_src"
  let ?r = "chunkBody ex_env ?a (ex_consts (15, 15, 14)) (0, 0) ?st"
  let ?ch = "(ex_chunk [(0, ex_section 1)] None)
       \<lparr>Entities := [\<lparr>Position = (0, 0, 0), payload = 1\<rparr>],
        TileEntities := [\<lparr>Position = (0, 0, 0), payload = 2\<rparr>, \<lparr>Position = (5, 0, 0), payload = 3\<rparr>]\<rparr>"
  have ch: "chunks (dims ?st (sourceDim ?a)) (0, 0) = Some ?ch"
    by (simp add: ex_state_def ex_args_def ents_src_def ex_dim_def)
  have ok: "fst ?r = None" by code_simp
  then have "?r = (None, snd ?r)" by (metis prod.collapse)
  from C7_entities_and_tile_entities[OF ch this] ch ok show ?thesis
    by (simp add: migrated_def ex_args_def ex_sel1_def ex_consts_def copyWithOffset_def vadd_def
        ex_state_def entitiesAdded_def tileEntitiesAdded_def)
qed

section \<open>Progress checkpoints\<close>

lemma advance_Yielded:
  assumes "advance env args c xs st = (Yielded n m, g', st')"
  shows "\<exists>p rest. g' = Suspended c p rest \<and> containsChunk (dims st (sourceDim args)) p
           \<and> dims st' = dims st \<and> n = i st + 1 \<and> trace st' = trace st @ [Yield n m]"
  using assms
proof (induction xs arbitrary: st)
  case Nil
  then show ?case using epilogue_not_Yielded[of env args st n m]
    by (auto split: prod.splits)
next
  case (Cons p ps)
  show ?case
  proof (cases "containsChunk (dims st (sourceDim args)) p")
    case True
    with Cons.prems show ?thesis
      by (intro exI[of _ p] exI[of _ ps]) auto
  next
    case False
    with Cons.prems have "advance env args c ps st = (Yielded n m, g', st')" by simp
    from Cons.IH[OF this] show ?thesis .
  qed
qed

text \<open>
  Claim C5, as amended. A checkpoint is yielded before its chunk is processed, not after.
  When a request to the generator yields a pair, the generator is suspended holding the
  chunk it has just announced, which the source has and which is still untouched; the
  world is as the complete loop body of the previously announced chunk left it (as it
  was at the start, for the first pair). The body of the announced chunk runs, whole, at
  the next request. So a consumer who stops after a checkpoint leaves no chunk partly
  processed, but leaves the announced chunk unprocessed.
\<close>

theorem C5_checkpoint_before_chunk:
  assumes "gen_next env args g st = (Yielded n m, g', st')"
  shows "(\<exists>c p rest. g' = Suspended c p rest \<and> containsChunk (dims st' (sourceDim args)) p)
       \<and> (case g of
            NotStarted \<Rightarrow> dims st' = dims st \<and> n = 1
          | Suspended c0 p0 rest0 \<Rightarrow>
              (\<exists>st1. chunkBody env args c0 p0 st = (None, st1) \<and> dims st' = dims st1
                    \<and> trace st' = trace st1 @ [Yield n m])
          | Finished \<Rightarrow> False)"
proof (cases g)
  case NotStarted
  with assms obtain c st0 where p: "prologue env args st = Inr (c, st0)"
    and a: "advance env args c (Selection_chunkPositions (sourceSelection args)) st0 = (Yielded n m, g', st')"
    by (auto simp: gen_next_def split: sum.splits)
  from p have i0: "i st0 = 0" "dims st0 = dims st"
    by (auto simp: prologue_def Let_def split: sum.splits)
  from advance_Yielded[OF a] i0 NotStarted show ?thesis by auto
next
  case (Suspended c0 p0 rest0)
  with assms obtain st1 where b: "chunkBody env args c0 p0 st = (None, st1)"
    and a: "advance env args c0 rest0 st1 = (Yielded n m, g', st')"
    by (auto simp: gen_next_def split: prod.splits option.splits)
  from advance_Yielded[OF a] b Suspended show ?thesis by auto
next
  case Finished
  with assms show ?thesis by (simp add: gen_next_def)
qed


theorem C5_checkpoint_before_chunk_witness:
  "fst (gen_next ex_env (ex_args 1 ex_sel (15, 15, 14) LightsEach) NotStarted (ex_state air1 stone1)) = Yielded 1 4
   \<and> dims (snd (snd (gen_next ex_env (ex_args 1 ex_sel (15, 15, 14) LightsEach) NotStarted (ex_state air1 stone1))))
       = dims (ex_state air1 stone1)"
proof -
  let ?r = "gen_next ex_env (ex_args 1 ex_sel (15, 15, 14) LightsEach) NotStarted (ex_state air1 stone1)"
  have y: "fst ?r = Yielded 1 4" by code_simp
  then have "?r = (Yielded 1 4, fst (snd ?r), snd (snd ?r))"
    by (metis prod.collapse)
  from C5_checkpoint_before_chunk[OF this] y show ?thesis by simp
qed

text \<open>
  Claim C5 as stated fails: when the first checkpoint (1, 4) is yielded, the chunk it
  stands for has not been processed. The voxel at (15, 15, 15) is still air; the
  complete run makes it stone.
\<close>

theorem C5_counterexample:
  "(case gen_next ex_env (ex_args 1 ex_sel (15, 15, 14) LightsEach) NotStarted (ex_state air1 stone1) of
      (out, g, st) \<Rightarrow> out = Yielded 1 4 \<and> blockAt (dims st 0) (15, 15, 15) = Some (0, 0))
   \<and> blockAt (dims (snd (exhaust ex_env (ex_args 1 ex_sel (15, 15, 14) LightsEach) NotStarted (ex_state air1 stone1))) 0)
        (15, 15, 15) = Some (1, 0)"
  by code_simp

section \<open>Coordinates passed to the relighting collaborator\<close>

text \<open>
  Claim C2 fails on the code. The arrays are indexed \<open>[y, z, x]\<close> (lines 134 to 138), but
  line 175 names the index arrays of \<open>nonzero()\<close> \<open>x, y, z\<close> and adds \<open>minx\<close>, \<open>miny\<close>,
  \<open>minz\<close> to them in that order. In the copy below the voxels at (15, 15, 14) and
  (15, 15, 15) change from air to stone; the collaborator is given (15, 15, 14) and
  (15, 16, 14). The second triple is not the position of a changed voxel: the
  destination has no voxel there at all.
\<close>

theorem C2_relight_coordinates:
  "blockAt (dims (ex_state air1 stone1) 0) (15, 15, 15) = Some (0, 0)
   \<and> (case exhaust ex_env (ex_args 1 ex_sel (15, 15, 14) LightsEach) NotStarted (ex_state air1 stone1) of
        (out, st) \<Rightarrow>
          out = StopIteration
          \<and> trace st = [Yield 1 4, WriteBlocks 0 (0, 0) 0, Relight 0 [15, 15] [15, 16] [14, 14]]
          \<and> blockAt (dims st 0) (15, 15, 15) = Some (1, 0)
          \<and> blockAt (dims st 0) (15, 16, 14) = None)"
  by code_simp

section \<open>Biomes\<close>

text \<open>
  Claim C3 fails on the code. Lines 198 to 200 write the source biome at the source
  column itself: the copy offset, which blocks, entities and tile entities get, is not
  added. In the copy below the voxel at the origin is selected and the offset is
  (16, 0, 0). The source column (0, 0) has biome 7 and every column of the destination
  has biome 1. The run completes with one call of the bulk column write, for column
  (0, 0); afterwards the translated column (16, 0) of the destination still has biome 1,
  and the column (0, 0) of the destination has been overwritten with 7.
\<close>

theorem C3_biome_not_translated:
  "biomeAt (dims (ex_state biome_dst biome_src) 1) (0, 0) = Some 7
   \<and> biomeAt (dims (ex_state biome_dst biome_src) 0) (16, 0) = Some 1
   \<and> biomeAt (dims (ex_state biome_dst biome_src) 0) (0, 0) = Some 1
   \<and> (case exhaust ex_env ((ex_args 1 ex_sel1 (16, 0, 0) LightsOff)\<lparr>biomes := True\<rparr>) NotStarted
            (ex_state biome_dst biome_src) of
        (out, st) \<Rightarrow>
          out = StopIteration
          \<and> trace st = [Yield 1 1, SetBiomes 0 [0] [0] [7]]
          \<and> biomeAt (dims st 0) (16, 0) = Some 1
          \<and> biomeAt (dims st 0) (0, 0) = Some 7)"
  by code_simp

section \<open>The allow-list of block types\<close>

lemma make_typemask_range:
  "make_typemask n ids =
     (if \<forall>b\<in>set ids. - int n \<le> b \<and> b < int n
      then Inr (\<lambda>k. \<exists>b\<in>set ids. (if b < 0 then b + int n else b) = int k)
      else Inl IndexError)"
  by (simp add: make_typemask_def list_all_iff list_ex_iff)

text \<open>
  Claim C6, as amended. An allow-list id outside the range of the type mask is an error:
  line 20 raises IndexError for an id that is at least \<open>id_limit\<close> or below
  \<open>-id_limit\<close>. When every id \<open>b\<close> has \<open>-id_limit \<le> b < id_limit\<close> the mask function is
  built; a negative id counts from the end of the mask and selects the type
  \<open>b + id_limit\<close>. Applied to a section whose block ids are all below \<open>id_limit\<close>, the mask
  function marks exactly the voxels whose id is selected by an entry of the list;
  applied to a section with a block id of \<open>id_limit\<close> or more, line 23 raises IndexError.
\<close>

theorem C6_allow_list_ids:
  "((\<exists>b\<in>set ids. b < - int n \<or> int n \<le> b) \<longrightarrow> sourceMaskFunc n (Some ids) = Inl IndexError)
   \<and> ((\<forall>b\<in>set ids. - int n \<le> b \<and> b < int n) \<longrightarrow>
        (\<exists>mk. sourceMaskFunc n (Some ids) = Inr mk
           \<and> (\<forall>blocks.
                 ((\<forall>idx\<in>set all_indices. blocks idx < n) \<longrightarrow>
                    (\<exists>mask. mk blocks = Inr mask
                       \<and> (\<forall>idx. mask idx = (\<exists>b\<in>set ids. (if b < 0 then b + int n else b) = int (blocks idx)))))
                 \<and> ((\<exists>idx\<in>set all_indices. n \<le> blocks idx) \<longrightarrow> mk blocks = Inl IndexError))))"
proof (intro conjI impI)
  assume "\<exists>b\<in>set ids. b < - int n \<or> int n \<le> b"
  then have "\<not> (\<forall>b\<in>set ids. - int n \<le> b \<and> b < int n)" by force
  then show "sourceMaskFunc n (Some ids) = Inl IndexError"
    by (simp add: sourceMaskFunc_def make_typemask_range)
next
  assume r: "\<forall>b\<in>set ids. - int n \<le> b \<and> b < int n"
  let ?tm = "\<lambda>k. \<exists>b\<in>set ids. (if b < 0 then b + int n else b) = int k"
  have mk: "sourceMaskFunc n (Some ids) = Inr (maskedSourceMask n ?tm)"
    using r by (simp add: sourceMaskFunc_def make_typemask_range)
  show "\<exists>mk. sourceMaskFunc n (Some ids) = Inr mk
           \<and> (\<forall>blocks.
                 ((\<forall>idx\<in>set all_indices. blocks idx < n) \<longrightarrow>
                    (\<exists>mask. mk blocks = Inr mask
                       \<and> (\<forall>idx. mask idx = (\<exists>b\<in>set ids. (if b < 0 then b + int n else b) = int (blocks idx)))))
                 \<and> ((\<exists>idx\<in>set all_indices. n \<le> blocks idx) \<longrightarrow> mk blocks = Inl IndexError))"
  proof (intro exI[of _ "maskedSourceMask n ?tm"] conjI allI impI)
    show "sourceMaskFunc n (Some ids) = Inr (maskedSourceMask n ?tm)" by (rule mk)
  next
    fix blocks assume "\<forall>idx\<in>set all_indices. blocks idx < n"
    then have "maskedSourceMask n ?tm blocks = Inr (\<lambda>idx. ?tm (blocks idx))"
      by (simp add: maskedSourceMask_def list_all_iff)
    then show "\<exists>mask. maskedSourceMask n ?tm blocks = Inr mask
        \<and> (\<forall>idx. mask idx = (\<exists>b\<in>set ids. (if b < 0 then b + int n else b) = int (blocks idx)))"
      by simp
  next
    fix blocks assume "\<exists>idx\<in>set all_indices. n \<le> blocks idx"
    then have "\<not> (\<forall>idx\<in>set all_indices. blocks idx < n)" by force
    then show "maskedSourceMask n ?tm blocks = Inl IndexError"
      by (simp add: maskedSourceMask_def list_all_iff)
  qed
qed

theorem C6_allow_list_ids_witness:
  "sourceMaskFunc 4096 (Some [1, 4096]) = Inl IndexError
   \<and> (\<exists>mk mask. sourceMaskFunc 4096 (Some [1, - 1]) = Inr mk
         \<and> mk (\<lambda>idx. 4095) = Inr mask \<and> mask (0, 0, 0))"
proof -
  have a: "sourceMaskFunc 4096 (Some [1, 4096]) = Inl IndexError"
    using C6_allow_list_ids[of "[1, 4096]" 4096] by simp
  from C6_allow_list_ids[of "[1, - 1]" 4096]
  obtain mk where mk: "sourceMaskFunc 4096 (Some [1, - 1]) = Inr mk"
    and ap: "\<And>blocks. \<forall>idx\<in>set all_indices. blocks idx < 4096 \<Longrightarrow>
               \<exists>mask. mk blocks = Inr mask
                 \<and> (\<forall>idx. mask idx = (\<exists>b\<in>set [1, - 1]. (if b < 0 then b + int 4096 else b) = int (blocks idx)))"
    by auto
  from ap[of "\<lambda>idx. 4095"] obtain mask where "mk (\<lambda>idx. 4095) = Inr mask" "mask (0, 0, 0)"
    by auto
  with a mk show ?thesis by blast
qed

text \<open>
  Claim C6 as stated fails: with \<open>id_limit\<close> 4096, the allow-list [1, 4096] raises
  IndexError when the mask is built, and so does the first request to the generator.
\<close>

theorem C6_counterexample:
  "id_limit ex_env = 4096
   \<and> (case sourceMaskFunc (id_limit ex_env) (Some [1, 4096]) of Inl e \<Rightarrow> e = IndexError | Inr mk \<Rightarrow> False)
   \<and> fst (gen_next ex_env ((ex_args 1 ex_sel1 (0, 0, 0) LightsOff)\<lparr>blocksToCopy := Some [1, 4096]\<rparr>) NotStarted
            (ex_state air1 stone1)) = Raised IndexError"
  by code_simp

section \<open>Positions, local indices and views\<close>

lemma blockAt_alt:
  "blockAt dim p =
     (case chunks dim (chunkOf p) of
        None \<Rightarrow> None
      | Some ch \<Rightarrow>
          (case getSection ch (sectionOf p) of
             None \<Rightarrow> None
           | Some sec \<Rightarrow> Some (Blocks sec (localIndex p), Data sec (localIndex p))))"
proof -
  obtain x y z where p: "p = (x, y, z)" by (cases p) auto
  show ?thesis unfolding p blockAt_def chunkOf_def sectionOf_def localIndex_def
    by (simp split: option.splits)
qed

lemma view_local_within:
  "view_local (a, b, c) (u, v, w) =
     (if within a u \<and> within b v \<and> within c w then Some (u - fst a, v - fst b, w - fst c) else None)"
  by (simp add: view_local_def within_def)

lemma axis_in0:
  fixes x d s o' :: int
  assumes "x div 16 = d" "max (16 * d) (16 * s + o') < min (16 * d + 16) (16 * s + o' + 16)"
  shows "(nat (max (16 * d) (16 * s + o') - 16 * d) \<le> nat (x mod 16)
          \<and> nat (x mod 16) < nat (max (16 * d) (16 * s + o') - 16 * d)
                + nat (min (16 * d + 16) (16 * s + o' + 16) - max (16 * d) (16 * s + o')))
         \<longleftrightarrow> (x - o') div 16 = s"
proof -
  have m: "x mod 16 = x - 16 * d" using assms(1) by (simp add: minus_mult_div_eq_mod [symmetric])
  have r: "16 * d \<le> x" "x < 16 * d + 16" using assms(1) by auto
  have s: "((x - o') div 16 = s) \<longleftrightarrow> (16 * s \<le> x - o' \<and> x - o' < 16 * s + 16)" by auto
  show ?thesis unfolding m s using r assms(2) by auto
qed

lemma axis_in:
  fixes x d s o' lo hi :: int
  assumes "x div 16 = d" "lo = max (16 * d) (16 * s + o')" "hi = min (16 * d + 16) (16 * s + o' + 16)" "lo < hi"
  shows "within (nat (lo - 16 * d), nat (hi - lo)) (nat (x mod 16)) \<longleftrightarrow> (x - o') div 16 = s"
  using axis_in0[OF assms(1), of s o'] assms(4) unfolding within_def assms(2) assms(3) by simp

lemma axis_at0:
  fixes x d s o' :: int
  assumes "x div 16 = d" "max (16 * d) (16 * s + o') < min (16 * d + 16) (16 * s + o' + 16)"
    and "(x - o') div 16 = s"
  shows "nat (max (16 * d) (16 * s + o') - o' - 16 * s)
           + (nat (x mod 16) - nat (max (16 * d) (16 * s + o') - 16 * d))
         = nat ((x - o') mod 16)"
proof -
  have m: "x mod 16 = x - 16 * d" using assms(1) by (simp add: minus_mult_div_eq_mod [symmetric])
  have m': "(x - o') mod 16 = x - o' - 16 * s" using assms(3) by (simp add: minus_mult_div_eq_mod [symmetric])
  have r: "16 * d \<le> x" "x < 16 * d + 16" using assms(1) by auto
  have r': "16 * s \<le> x - o'" "x - o' < 16 * s + 16" using assms(3) by auto
  show ?thesis unfolding m m' using r r' assms(2) by auto
qed

lemma axis_at:
  fixes x d s o' lo hi :: int
  assumes "x div 16 = d" "lo = max (16 * d) (16 * s + o')" "hi = min (16 * d + 16) (16 * s + o' + 16)" "lo < hi"
    and "(x - o') div 16 = s"
  shows "nat (lo - o' - 16 * s) + (nat (x mod 16) - nat (lo - 16 * d)) = nat ((x - o') mod 16)"
  using axis_at0[OF assms(1) _ assms(5)] assms(4) unfolding assms(2) assms(3) by simp

lemma axis_nonempty:
  fixes x d s o' :: int
  assumes "x div 16 = d" "(x - o') div 16 = s"
  shows "max (16 * d) (16 * s + o') < min (16 * d + 16) (16 * s + o' + 16)"
proof -
  have r: "16 * d \<le> x" "x < 16 * d + 16" using assms(1) by auto
  have r': "16 * s \<le> x - o'" "x - o' < 16 * s + 16" using assms(2) by auto
  show ?thesis using r r' by auto
qed

lemma slice_indices_exact:
  "exact_slice s \<Longrightarrow> slice_indices 16 s = (nat (fst s), nat (snd s - fst s))"
  by (auto simp: slice_indices_def exact_slice_def Let_def max_def min_def)

lemma push16: "push_bit 4 (a::int) = 16 * a"
  by (simp add: push_bit_eq_mult)

lemma cell_views:
  assumes nz: "volume (cellIntersect (sectionDestBox (scx, scz) scy (ox, oy, oz)) (dcx, dcz) dcy) \<noteq> 0"
  defines "ix \<equiv> cellIntersect (sectionDestBox (scx, scz) scy (ox, oy, oz)) (dcx, dcz) dcy"
  shows "view_of (destSlices ix (dcx, dcz) dcy) =
           ((nat (miny ix - 16 * dcy), nat (maxy ix - miny ix)),
            (nat (minz ix - 16 * dcz), nat (maxz ix - minz ix)),
            (nat (minx ix - 16 * dcx), nat (maxx ix - minx ix)))"
    and "view_of (sourceSlices ix (ox, oy, oz) (scx, scz) scy) =
           ((nat (miny ix - oy - 16 * scy), nat (maxy ix - miny ix)),
            (nat (minz ix - oz - 16 * scz), nat (maxz ix - minz ix)),
            (nat (minx ix - ox - 16 * scx), nat (maxx ix - minx ix)))"
proof -
  note b = cell_bounds[OF nz, folded ix_def]
  have ed: "exact_slice (miny ix - 16 * dcy, maxy ix - 16 * dcy)"
    "exact_slice (minz ix - 16 * dcz, maxz ix - 16 * dcz)"
    "exact_slice (minx ix - 16 * dcx, maxx ix - 16 * dcx)"
    using b by (auto simp: exact_slice_def)
  have es: "exact_slice (miny ix - oy - 16 * scy, maxy ix - oy - 16 * scy)"
    "exact_slice (minz ix - oz - 16 * scz, maxz ix - oz - 16 * scz)"
    "exact_slice (minx ix - ox - 16 * scx, maxx ix - ox - 16 * scx)"
    using b by (auto simp: exact_slice_def)
  show "view_of (destSlices ix (dcx, dcz) dcy) =
           ((nat (miny ix - 16 * dcy), nat (maxy ix - miny ix)),
            (nat (minz ix - 16 * dcz), nat (maxz ix - minz ix)),
            (nat (minx ix - 16 * dcx), nat (maxx ix - minx ix)))"
    by (simp add: view_of_def destSlices_def push16 slice_indices_exact[OF ed(1)]
        slice_indices_exact[OF ed(2)] slice_indices_exact[OF ed(3)])
  show "view_of (sourceSlices ix (ox, oy, oz) (scx, scz) scy) =
           ((nat (miny ix - oy - 16 * scy), nat (maxy ix - miny ix)),
            (nat (minz ix - oz - 16 * scz), nat (maxz ix - minz ix)),
            (nat (minx ix - ox - 16 * scx), nat (maxx ix - minx ix)))"
    by (simp add: view_of_def sourceSlices_def Let_def sourceIntersect_bounds push16
        slice_indices_exact[OF es(1)] slice_indices_exact[OF es(2)] slice_indices_exact[OF es(3)])
qed

lemma cell_view_local:
  assumes nz: "volume (cellIntersect (sectionDestBox (scx, scz) scy (ox, oy, oz)) (dcx, dcz) dcy) \<noteq> 0"
    and cell: "x div 16 = dcx" "y div 16 = dcy" "z div 16 = dcz"
  defines "ix \<equiv> cellIntersect (sectionDestBox (scx, scz) scy (ox, oy, oz)) (dcx, dcz) dcy"
  shows "map_option (view_at (view_of (sourceSlices ix (ox, oy, oz) (scx, scz) scy)))
           (view_local (view_of (destSlices ix (dcx, dcz) dcy)) (localIndex (x, y, z)))
         = (if (x - ox) div 16 = scx \<and> (y - oy) div 16 = scy \<and> (z - oz) div 16 = scz
            then Some (localIndex (x - ox, y - oy, z - oz)) else None)"
proof -
  note b = cell_bounds[OF nz, folded ix_def]
  note v = cell_views[OF nz, folded ix_def]
  note inx = axis_in[OF cell(1) b(1) b(2) b(7)] and iny = axis_in[OF cell(2) b(3) b(4) b(8)]
    and inz = axis_in[OF cell(3) b(5) b(6) b(9)]
  have l: "view_local (view_of (destSlices ix (dcx, dcz) dcy)) (localIndex (x, y, z))
      = (if (x - ox) div 16 = scx \<and> (y - oy) div 16 = scy \<and> (z - oz) div 16 = scz
         then Some (nat (y mod 16) - nat (miny ix - 16 * dcy), nat (z mod 16) - nat (minz ix - 16 * dcz),
                    nat (x mod 16) - nat (minx ix - 16 * dcx))
         else None)"
    unfolding v localIndex_def by (simp only: prod.case view_local_within inx iny inz fst_conv conj_commute conj_left_commute)
  show ?thesis
  proof (cases "(x - ox) div 16 = scx \<and> (y - oy) div 16 = scy \<and> (z - oz) div 16 = scz")
    case True
    then have t: "(x - ox) div 16 = scx" "(y - oy) div 16 = scy" "(z - oz) div 16 = scz" by simp_all
    note ax = axis_at[OF cell(1) b(1) b(2) b(7) t(1)] and ay = axis_at[OF cell(2) b(3) b(4) b(8) t(2)]
      and az = axis_at[OF cell(3) b(5) b(6) b(9) t(3)]
    have "map_option (view_at (view_of (sourceSlices ix (ox, oy, oz) (scx, scz) scy)))
            (view_local (view_of (destSlices ix (dcx, dcz) dcy)) (localIndex (x, y, z)))
        = Some (view_at (view_of (sourceSlices ix (ox, oy, oz) (scx, scz) scy))
            (nat (y mod 16) - nat (miny ix - 16 * dcy), nat (z mod 16) - nat (minz ix - 16 * dcz),
             nat (x mod 16) - nat (minx ix - 16 * dcx)))"
      by (simp add: l t)
    also have "\<dots> = Some (localIndex (x - ox, y - oy, z - oz))"
      unfolding v by (simp only: view_at_def prod.case fst_conv ax ay az localIndex_def)
    finally show ?thesis using True by simp
  next
    case False
    show ?thesis by (simp only: l False if_False option.map)
  qed
qed

lemma cell_nonempty:
  assumes "x div 16 = dcx" "y div 16 = dcy" "z div 16 = dcz"
    and "(x - ox) div 16 = scx" "(y - oy) div 16 = scy" "(z - oz) div 16 = scz"
  shows "volume (cellIntersect (sectionDestBox (scx, scz) scy (ox, oy, oz)) (dcx, dcz) dcy) \<noteq> 0"
proof -
  define lx hx ly hy lz hz where "lx = max (16 * dcx) (16 * scx + ox)" and "hx = min (16 * dcx + 16) (16 * scx + ox + 16)"
    and "ly = max (16 * dcy) (16 * scy + oy)" and "hy = min (16 * dcy + 16) (16 * scy + oy + 16)"
    and "lz = max (16 * dcz) (16 * scz + oz)" and "hz = min (16 * dcz + 16) (16 * scz + oz + 16)"
  have nx: "lx < hx" and ny: "ly < hy" and nz: "lz < hz"
    unfolding lx_def hx_def ly_def hy_def lz_def hz_def
    by (rule axis_nonempty[OF assms(1) assms(4)], rule axis_nonempty[OF assms(2) assms(5)],
        rule axis_nonempty[OF assms(3) assms(6)])
  have "intersect (SectionBox dcx dcy dcz) (sectionDestBox (scx, scz) scy (ox, oy, oz))
      = (let lo = (lx, ly, lz); hi = (hx, hy, hz); sz = vsub hi lo
         in if fst sz \<le> 0 \<or> fst (snd sz) \<le> 0 \<or> snd (snd sz) \<le> 0 then ZeroBox
            else \<lparr>origin = lo, size = sz\<rparr>)"
    unfolding intersect_def SectionBox_bounds sectionDestBox_bounds lx_def hx_def ly_def hy_def lz_def hz_def ..
  also have "\<dots> = \<lparr>origin = (lx, ly, lz), size = (hx - lx, hy - ly, hz - lz)\<rparr>"
    using nx ny nz by (simp add: Let_def vsub_def)
  finally show ?thesis
    using nx ny nz by (simp add: cellIntersect_def volume_def)
qed

section \<open>Voxels kept and voxels copied\<close>

lemma writes_ok_refl: "writes_ok args c S D D"
  by (simp add: writes_ok_def)

lemma writes_ok_trans:
  assumes "writes_ok args c S D D'" "writes_ok args c S D' D''"
  shows "writes_ok args c S D D''"
proof -
  have 3: "blockAt D'' p = Some v \<or> copiedTo args c S D'' p" if h: "blockAt D p = Some v" for p v
  proof -
    from assms(1) h have "blockAt D' p = Some v \<or> copiedTo args c S D' p" unfolding writes_ok_def by blast
    then show ?thesis
    proof
      assume "blockAt D' p = Some v"
      with assms(2) show ?thesis unfolding writes_ok_def by blast
    next
      assume "copiedTo args c S D' p"
      then obtain w where w: "selectedAt args c S (vsub p (copyOffset c))"
        "blockAt S (vsub p (copyOffset c)) = Some w" "blockAt D' p = Some (convertBlocks c w)"
        unfolding copiedTo_def by blast
      from assms(2) w(3) have "blockAt D'' p = Some (convertBlocks c w) \<or> copiedTo args c S D'' p"
        unfolding writes_ok_def by blast
      then show ?thesis using w by (auto simp: copiedTo_def)
    qed
  qed
  have 1: "chunks D'' cp \<noteq> None" if "chunks D cp \<noteq> None" for cp
    using assms that unfolding writes_ok_def by blast
  have 2: "chunks D cp \<noteq> None" if "\<not> create args" "chunks D'' cp \<noteq> None" for cp
    using assms that unfolding writes_ok_def by blast
  show ?thesis unfolding writes_ok_def using 1 2 3 by blast
qed

lemma writes_ok_keep:
  assumes "\<And>cp. chunks D cp \<noteq> None \<Longrightarrow> chunks D' cp \<noteq> None"
    and "\<And>cp. \<not> create args \<Longrightarrow> chunks D' cp \<noteq> None \<Longrightarrow> chunks D cp \<noteq> None"
    and "\<And>p v. blockAt D p = Some v \<Longrightarrow> blockAt D' p = Some v"
  shows "writes_ok args c S D D'"
  unfolding writes_ok_def using assms by blast

lemma sectionAt_alt: "sectionAt d cpos cy st = (case chunks (dims st d) cpos of None \<Rightarrow> None | Some ch \<Rightarrow> getSection ch cy)"
  by (simp add: sectionAt_def)

lemma blockAt_sectionAt:
  "blockAt (dims st d) p =
     (case sectionAt d (chunkOf p) (sectionOf p) st of
        None \<Rightarrow> None
      | Some sec \<Rightarrow> Some (Blocks sec (localIndex p), Data sec (localIndex p)))"
  by (simp add: blockAt_alt sectionAt_def split: option.splits)

lemma sectionAt_setSection:
  assumes "chunks (dims st d) cpos \<noteq> None"
  shows "sectionAt d cp cy' (setSection d cpos cy sec st)
         = (if cp = cpos \<and> cy' = cy then Some sec else sectionAt d cp cy' st)"
  using assms by (auto simp: sectionAt_def setSection_def)

lemma chunks_setSection:
  "(chunks (dims (setSection d cpos cy sec st) d) cp \<noteq> None) = (chunks (dims st d) cp \<noteq> None)"
  by (auto simp: setSection_def split: option.splits)

lemma getSection_create_facts:
  assumes "getSection_create env d cpos cy st = (r, st1)"
  shows "(chunks (dims st1 d) cp \<noteq> None) = (chunks (dims st d) cp \<noteq> None)"
    and "d' \<noteq> d \<Longrightarrow> dims st1 d' = dims st d'"
    and "sectionAt d cp cy' st = Some s0 \<Longrightarrow> sectionAt d cp cy' st1 = Some s0"
    and "r = None \<Longrightarrow> st1 = st"
    and "r = Some sec \<Longrightarrow> sectionAt d cpos cy st1 = Some sec"
    and "chunks (dims st d) cpos \<noteq> None \<Longrightarrow> sectionAt d cpos cy st \<noteq> None \<or> newSection env cy \<noteq> None \<Longrightarrow> r \<noteq> None"
proof -
  show "(chunks (dims st1 d) cp \<noteq> None) = (chunks (dims st d) cp \<noteq> None)"
    using assms by (auto simp: getSection_create_def split: option.splits if_splits)
  show "d' \<noteq> d \<Longrightarrow> dims st1 d' = dims st d'"
    using assms by (auto simp: getSection_create_def split: option.splits if_splits)
  show "sectionAt d cp cy' st = Some s0 \<Longrightarrow> sectionAt d cp cy' st1 = Some s0"
    using assms by (auto simp: getSection_create_def sectionAt_def split: option.splits if_splits)
  show "r = None \<Longrightarrow> st1 = st"
    using assms by (auto simp: getSection_create_def split: option.splits if_splits)
  show "r = Some sec \<Longrightarrow> sectionAt d cpos cy st1 = Some sec"
    using assms by (auto simp: getSection_create_def sectionAt_def split: option.splits if_splits)
  show "chunks (dims st d) cpos \<noteq> None \<Longrightarrow> sectionAt d cpos cy st \<noteq> None \<or> newSection env cy \<noteq> None \<Longrightarrow> r \<noteq> None"
    using assms by (auto simp: getSection_create_def sectionAt_def split: option.splits if_splits) metis+
qed

lemma masked_assign_at:
  "masked_assign dv sv m new old idx =
     (case map_option (view_at sv) (view_local dv idx) of
        None \<Rightarrow> old idx
      | Some j \<Rightarrow> if m j then new j else old idx)"
  by (simp add: masked_assign_def split: option.splits)

lemma cell_view_local_vec:
  assumes nz: "volume (cellIntersect (sectionDestBox sourceCpos sourceCy off) destCpos destCy) \<noteq> 0"
    and cell: "chunkOf p = destCpos" "sectionOf p = destCy"
  shows "map_option (view_at (view_of (sourceSlices (cellIntersect (sectionDestBox sourceCpos sourceCy off) destCpos destCy) off sourceCpos sourceCy)))
           (view_local (view_of (destSlices (cellIntersect (sectionDestBox sourceCpos sourceCy off) destCpos destCy) destCpos destCy)) (localIndex p))
         = (if chunkOf (vsub p off) = sourceCpos \<and> sectionOf (vsub p off) = sourceCy
            then Some (localIndex (vsub p off)) else None)"
proof -
  obtain ox oy oz where o: "off = (ox, oy, oz)" by (cases off) auto
  obtain scx scz where s: "sourceCpos = (scx, scz)" by (cases sourceCpos) auto
  obtain dcx dcz where d: "destCpos = (dcx, dcz)" by (cases destCpos) auto
  obtain x y z where p: "p = (x, y, z)" by (cases p) auto
  from cell have c: "x div 16 = dcx" "y div 16 = dcy'" "z div 16 = dcz" if "dcy' = destCy" for dcy'
    using that by (simp_all add: p d chunkOf_def sectionOf_def drop_bit_eq_div)
  have "(chunkOf (vsub p off) = sourceCpos \<and> sectionOf (vsub p off) = sourceCy)
      = ((x - ox) div 16 = scx \<and> (y - oy) div 16 = sourceCy \<and> (z - oz) div 16 = scz)"
    by (auto simp: p o s chunkOf_def sectionOf_def vsub_def drop_bit_eq_div)
  moreover have "vsub p off = (x - ox, y - oy, z - oz)" by (simp add: p o vsub_def)
  ultimately show ?thesis
    using cell_view_local[OF nz[unfolded o s d] c(1)[OF refl] c(2)[OF refl] c(3)[OF refl]]
    unfolding o s d p by simp
qed

lemma cell_nonempty_vec:
  assumes "chunkOf p = destCpos" "sectionOf p = destCy"
    and "chunkOf (vsub p off) = sourceCpos" "sectionOf (vsub p off) = sourceCy"
  shows "volume (cellIntersect (sectionDestBox sourceCpos sourceCy off) destCpos destCy) \<noteq> 0"
proof -
  obtain ox oy oz where o: "off = (ox, oy, oz)" by (cases off) auto
  obtain scx scz where s: "sourceCpos = (scx, scz)" by (cases sourceCpos) auto
  obtain dcx dcz where d: "destCpos = (dcx, dcz)" by (cases destCpos) auto
  obtain x y z where p: "p = (x, y, z)" by (cases p) auto
  from assms have "x div 16 = dcx" "y div 16 = destCy" "z div 16 = dcz"
    "(x - ox) div 16 = scx" "(y - oy) div 16 = sourceCy" "(z - oz) div 16 = scz"
    by (simp_all add: p o s d chunkOf_def sectionOf_def vsub_def drop_bit_eq_div)
  from cell_nonempty[OF this] show ?thesis unfolding o s d .
qed

lemma cell_shapes:
  assumes nz: "volume (cellIntersect (sectionDestBox sourceCpos sourceCy off) destCpos destCy) \<noteq> 0"
  shows "view_shape (view_of (destSlices (cellIntersect (sectionDestBox sourceCpos sourceCy off) destCpos destCy) destCpos destCy))
       = view_shape (view_of (sourceSlices (cellIntersect (sectionDestBox sourceCpos sourceCy off) destCpos destCy) off sourceCpos sourceCy))"
proof -
  obtain ox oy oz where o: "off = (ox, oy, oz)" by (cases off) auto
  obtain scx scz where s: "sourceCpos = (scx, scz)" by (cases sourceCpos) auto
  obtain dcx dcz where d: "destCpos = (dcx, dcz)" by (cases destCpos) auto
  show ?thesis
    unfolding o s d using cell_views[OF nz[unfolded o s d]] by (simp add: view_shape_def)
qed

section \<open>The blocks after the copy of one cell\<close>

lemma sourceMaskOf_section:
  assumes "sourceMaskOf args c S cpos cy = Some m"
  shows "\<exists>ch sec. chunks S cpos = Some ch \<and> getSection ch cy = Some sec"
  using assms by (auto simp: sourceMaskOf_def split: option.splits sum.splits)

lemma getSection_create_existing:
  assumes "getSection_create env d cpos cy st = (r, st1)" "sectionAt d cpos cy st = Some s0"
  shows "r = Some s0"
  using assms by (auto simp: getSection_create_def sectionAt_def split: option.splits)

lemma dims_relight_emit [simp]:
  "dims (relightCell args ix changed (emit ev st)) = dims st"
  by simp

lemma copyCell_blockAt:
  fixes args :: Args and c :: Consts and env :: Env and st :: State and sourceMask :: "bool ndarray"
    and sourceCpos destCpos :: "int \<times> int" and sourceCy destCy :: int
  assumes ne: "destDim args \<noteq> sourceDim args"
    and src: "sectionAt (sourceDim args) sourceCpos sourceCy st = Some sec"
  defines "ix \<equiv> cellIntersect (sectionDestBox sourceCpos sourceCy (copyOffset c)) destCpos destCy"
  defines "r \<equiv> copyCell env args c sourceMask sourceCpos sourceCy
                  (sectionDestBox sourceCpos sourceCy (copyOffset c)) destCpos destCy st"
  shows "fst r = None"
    and "(chunks (dims (snd r) (destDim args)) cp \<noteq> None) = (chunks (dims st (destDim args)) cp \<noteq> None)"
    and "blockAt (dims (snd r) (destDim args)) p =
     (if volume ix \<noteq> 0 \<and> chunkOf p = destCpos \<and> sectionOf p = destCy then
        (case fst (getSection_create env (destDim args) destCpos destCy st) of
           None \<Rightarrow> blockAt (dims st (destDim args)) p
         | Some destSection \<Rightarrow>
             (if chunkOf (vsub p (copyOffset c)) = sourceCpos \<and> sectionOf (vsub p (copyOffset c)) = sourceCy
                 \<and> sourceMask (localIndex (vsub p (copyOffset c)))
              then Some (convertBlocks c (Blocks sec (localIndex (vsub p (copyOffset c))),
                                          Data sec (localIndex (vsub p (copyOffset c)))))
              else Some (Blocks destSection (localIndex p), Data destSection (localIndex p))))
      else blockAt (dims st (destDim args)) p)"
proof -
  let ?d = "destDim args"
  obtain g st1 where g: "getSection_create env ?d destCpos destCy st = (g, st1)"
    by (cases "getSection_create env ?d destCpos destCy st")
  note gf = getSection_create_facts[OF g]
  let ?dv = "view_of (destSlices ix destCpos destCy)"
  let ?sv = "view_of (sourceSlices ix (copyOffset c) sourceCpos sourceCy)"
  have all: "fst r = None
     \<and> ((chunks (dims (snd r) ?d) cp \<noteq> None) = (chunks (dims st ?d) cp \<noteq> None))
     \<and> blockAt (dims (snd r) ?d) p =
     (if volume ix \<noteq> 0 \<and> chunkOf p = destCpos \<and> sectionOf p = destCy then
        (case g of
           None \<Rightarrow> blockAt (dims st ?d) p
         | Some destSection \<Rightarrow>
             (if chunkOf (vsub p (copyOffset c)) = sourceCpos \<and> sectionOf (vsub p (copyOffset c)) = sourceCy
                 \<and> sourceMask (localIndex (vsub p (copyOffset c)))
              then Some (convertBlocks c (Blocks sec (localIndex (vsub p (copyOffset c))),
                                          Data sec (localIndex (vsub p (copyOffset c)))))
              else Some (Blocks destSection (localIndex p), Data destSection (localIndex p))))
      else blockAt (dims st ?d) p)"
  proof (cases "volume ix = 0")
    case True
    then have "r = (None, st)" by (simp add: r_def copyCell_def ix_def)
    with True show ?thesis by simp
  next
    case nz: False
    show ?thesis
    proof (cases g)
      case None
      with gf(4) have "st1 = st" by simp
      with nz g None have "r = (None, st)" by (simp add: r_def copyCell_def ix_def)
      with None show ?thesis by simp
    next
      case (Some destSection)
      have s1: "sectionAt (sourceDim args) sourceCpos sourceCy st1 = Some sec"
        using src gf(2)[of "sourceDim args"] ne by (simp add: sectionAt_def)
      have sh: "view_shape ?dv = view_shape ?sv"
        unfolding ix_def by (rule cell_shapes) (use nz in \<open>simp add: ix_def\<close>)
      define written where "written = destSection
          \<lparr>Blocks := masked_assign ?dv ?sv sourceMask (\<lambda>idx. fst (convertBlocks c (Blocks sec idx, Data sec idx))) (Blocks destSection),
           Data := masked_assign ?dv ?sv sourceMask (\<lambda>idx. snd (convertBlocks c (Blocks sec idx, Data sec idx))) (Data destSection)\<rparr>"
      have rr: "fst r = None \<and> dims (snd r) = dims (setSection ?d destCpos destCy written st1)"
        using nz g Some s1 sh
        by (simp add: r_def copyCell_def ix_def[symmetric] Let_def written_def)
      have ex1: "chunks (dims st1 ?d) destCpos \<noteq> None"
        using gf(5)[OF Some] by (auto simp: sectionAt_def split: option.splits)
      have dom: "(chunks (dims (snd r) ?d) cp \<noteq> None) = (chunks (dims st ?d) cp \<noteq> None)"
        using rr chunks_setSection[of ?d destCpos destCy written st1 cp] gf(1)[of cp] by simp
      have blk: "blockAt (dims (snd r) ?d) p =
          (if chunkOf p = destCpos \<and> sectionOf p = destCy
           then Some (Blocks written (localIndex p), Data written (localIndex p))
           else blockAt (dims st1 ?d) p)"
        using rr by (simp add: blockAt_sectionAt sectionAt_setSection[OF ex1])
      show ?thesis
      proof (cases "chunkOf p = destCpos \<and> sectionOf p = destCy")
        case True
        then have cell: "chunkOf p = destCpos" "sectionOf p = destCy" by simp_all
        have nz': "volume (cellIntersect (sectionDestBox sourceCpos sourceCy (copyOffset c)) destCpos destCy) \<noteq> 0"
          using nz by (simp add: ix_def)
        note vl = cell_view_local_vec[OF nz' cell, folded ix_def]
        let ?q = "vsub p (copyOffset c)"
        let ?C = "chunkOf ?q = sourceCpos \<and> sectionOf ?q = sourceCy \<and> sourceMask (localIndex ?q)"
        have val: "blockAt (dims (snd r) ?d) p = Some (Blocks written (localIndex p), Data written (localIndex p))"
          using blk True by simp
        have bw: "Blocks written (localIndex p)
                  = (if ?C then fst (convertBlocks c (Blocks sec (localIndex ?q), Data sec (localIndex ?q)))
                     else Blocks destSection (localIndex p))"
          "Data written (localIndex p)
                  = (if ?C then snd (convertBlocks c (Blocks sec (localIndex ?q), Data sec (localIndex ?q)))
                     else Data destSection (localIndex p))"
          by (simp_all add: written_def masked_assign_at vl)
        have r0: "fst r = None" using rr by simp
        show ?thesis
          unfolding val bw using r0 dom nz True Some by simp
      next
        case False
        have "blockAt (dims st1 ?d) p = blockAt (dims st ?d) p"
        proof (cases "sectionAt ?d (chunkOf p) (sectionOf p) st")
          case None
          then show ?thesis
            using g False
            by (auto simp: blockAt_sectionAt getSection_create_def sectionAt_def split: option.splits if_splits)
        next
          case (Some s0)
          with gf(3)[OF Some] show ?thesis by (simp add: blockAt_sectionAt)
        qed
        moreover have "fst r = None" using rr by simp
        moreover have "blockAt (dims (snd r) ?d) p = blockAt (dims st1 ?d) p" using blk False by auto
        ultimately show ?thesis using dom False by auto
      qed
    qed
  qed
  show "fst r = None" using all by simp
  show "(chunks (dims (snd r) (destDim args)) cp \<noteq> None) = (chunks (dims st (destDim args)) cp \<noteq> None)"
    using all by simp
  show "blockAt (dims (snd r) (destDim args)) p =
     (if volume ix \<noteq> 0 \<and> chunkOf p = destCpos \<and> sectionOf p = destCy then
        (case fst (getSection_create env (destDim args) destCpos destCy st) of
           None \<Rightarrow> blockAt (dims st (destDim args)) p
         | Some destSection \<Rightarrow>
             (if chunkOf (vsub p (copyOffset c)) = sourceCpos \<and> sectionOf (vsub p (copyOffset c)) = sourceCy
                 \<and> sourceMask (localIndex (vsub p (copyOffset c)))
              then Some (convertBlocks c (Blocks sec (localIndex (vsub p (copyOffset c))),
                                          Data sec (localIndex (vsub p (copyOffset c)))))
              else Some (Blocks destSection (localIndex p), Data destSection (localIndex p))))
      else blockAt (dims st (destDim args)) p)"
    using all g by simp
qed

section \<open>Steps that only copy; loops that reach a position\<close>

lemma sound_refl: "sound args c S st st"
  by (simp add: sound_def writes_ok_refl)

lemma sound_trans: "sound args c S st st' \<Longrightarrow> sound args c S st' st'' \<Longrightarrow> sound args c S st st''"
  unfolding sound_def by (blast intro: writes_ok_trans)

lemma sound_same: "dims st' = dims st \<Longrightarrow> sound args c S st st'"
  by (simp add: sound_def writes_ok_refl)

lemma sound_keep:
  assumes "frame (destDim args) st st'"
    and "\<And>cp. chunks (dims st (destDim args)) cp \<noteq> None \<Longrightarrow> chunks (dims st' (destDim args)) cp \<noteq> None"
    and "\<And>cp. \<not> create args \<Longrightarrow> chunks (dims st' (destDim args)) cp \<noteq> None
           \<Longrightarrow> chunks (dims st (destDim args)) cp \<noteq> None"
    and "\<And>p v. blockAt (dims st (destDim args)) p = Some v \<Longrightarrow> blockAt (dims st' (destDim args)) p = Some v"
  shows "sound args c S st st'"
proof -
  have "writes_ok args c S (dims st (destDim args)) (dims st' (destDim args))"
    by (rule writes_ok_keep) (use assms(2-4) in blast)+
  moreover have "dims st' (sourceDim args) = dims st (sourceDim args)" if "destDim args \<noteq> sourceDim args"
    using assms(1) that by (simp add: frame_def)
  ultimately show ?thesis by (simp add: sound_def)
qed

lemma landed_keep:
  assumes "writes_ok args c S D D'" "landed args c S D p"
  shows "landed args c S D' p"
proof -
  from assms(2) obtain v where v: "blockAt D p = Some v" by (auto simp: landed_def)
  with assms(1) have "blockAt D' p = Some v \<or> copiedTo args c S D' p"
    unfolding writes_ok_def by blast
  then show ?thesis
  proof
    assume "blockAt D' p = Some v"
    with v assms(2) show ?thesis by (auto simp: landed_def copiedTo_def)
  next
    assume "copiedTo args c S D' p"
    then show ?thesis by (auto simp: landed_def copiedTo_def)
  qed
qed

lemma landedAt_keep:
  assumes "destDim args \<noteq> sourceDim args" "sound args c S t t'" "landedAt args c S p t"
  shows "landedAt args c S p t'"
  using assms unfolding landedAt_def sound_def by (blast intro: landed_keep)

lemma avail_keep:
  assumes "writes_ok args c S D D'" "avail env args D p"
  shows "avail env args D' p"
proof -
  have 1: "chunks D' (chunkOf p) \<noteq> None" if "chunks D (chunkOf p) \<noteq> None"
    using assms(1) that unfolding writes_ok_def by blast
  have 2: "blockAt D' p \<noteq> None" if "blockAt D p \<noteq> None"
  proof -
    from that obtain v where "blockAt D p = Some v" by auto
    with assms(1) have "blockAt D' p = Some v \<or> copiedTo args c S D' p"
      unfolding writes_ok_def by blast
    then show ?thesis by (auto simp: copiedTo_def)
  qed
  from assms(2) 1 2 show ?thesis unfolding avail_def by blast
qed

lemma forEach_establish:
  assumes refl: "\<And>s. R s s"
    and trans: "\<And>s s' s''. R s s' \<Longrightarrow> R s' s'' \<Longrightarrow> R s s''"
    and keep: "\<And>t t'. R t t' \<Longrightarrow> G t \<Longrightarrow> G t'"
    and step: "\<And>y t. y \<in> set xs \<Longrightarrow> R t (snd (body y t))"
    and est: "\<And>t. R s t \<Longrightarrow> fst (body x t) = None \<Longrightarrow> G (snd (body x t))"
    and x: "x \<in> set xs"
    and ok: "fst (forEach body xs s) = None"
  shows "G (snd (forEach body xs s))"
  using step est x ok
proof (induction xs arbitrary: s)
  case Nil
  then show ?case by simp
next
  case (Cons y ys)
  obtain err s' where b: "body y s = (err, s')" by (cases "body y s")
  from Cons.prems(4) b have err: "err = None" by (cases err) auto
  have r1: "R s s'" using Cons.prems(1)[of y s] b by simp
  have rest: "forEach body (y # ys) s = forEach body ys s'" using b err by simp
  have r2: "R s' (snd (forEach body ys s'))"
    by (rule forEach_rel[where R=R]) (auto intro: refl trans Cons.prems(1))
  show ?case
  proof (cases "x = y")
    case True
    have "fst (body x s) = None" using b err True by simp
    from Cons.prems(2)[OF refl this] have "G s'" using b True by simp
    with keep[OF r2] show ?thesis unfolding rest by blast
  next
    case False
    with Cons.prems(3) have xin: "x \<in> set ys" by simp
    have ok': "fst (forEach body ys s') = None" using Cons.prems(4) rest by simp
    have est': "G (snd (body x t))" if "R s' t" "fst (body x t) = None" for t
      using Cons.prems(2)[OF trans[OF r1 that(1)] that(2)] .
    have step': "R t (snd (body z t))" if "z \<in> set ys" for z t
      using Cons.prems(1)[of z t] that by simp
    have "G (snd (forEach body ys s'))"
      by (rule Cons.IH[OF step' est' xin ok'])
    then show ?thesis unfolding rest .
  qed
qed

lemma div16_range:
  fixes x lo :: int
  assumes "lo \<le> x" "x < lo + 16"
  shows "x div 16 \<in> set [lo div 16 .. (lo + 16 - 1) div 16 + 1 - 1]"
proof -
  have "lo div 16 \<le> x div 16" using assms(1) by (rule zdiv_mono1) simp
  moreover have "x div 16 \<le> (lo + 16 - 1) div 16" by (rule zdiv_mono1) (use assms(2) in simp_all)
  ultimately show ?thesis by simp
qed

lemma chunk_listed:
  assumes "chunkOf (vsub p off) = sourceCpos" "sectionOf (vsub p off) = sourceCy"
  shows "chunkOf p \<in> set (chunkPositions (sectionDestBox sourceCpos sourceCy off))"
    and "sectionOf p \<in> set (sectionPositions (sectionDestBox sourceCpos sourceCy off) cx cz)"
proof -
  obtain ox oy oz where o: "off = (ox, oy, oz)" by (cases off) auto
  obtain scx scz where s: "sourceCpos = (scx, scz)" by (cases sourceCpos) auto
  obtain x y z where p: "p = (x, y, z)" by (cases p) auto
  from assms have q: "(x - ox) div 16 = scx" "(y - oy) div 16 = sourceCy" "(z - oz) div 16 = scz"
    by (simp_all add: p o s chunkOf_def sectionOf_def vsub_def drop_bit_eq_div)
  have rx: "16 * scx + ox \<le> x" "x < 16 * scx + ox + 16" using q(1) by auto
  have ry: "16 * sourceCy + oy \<le> y" "y < 16 * sourceCy + oy + 16" using q(2) by auto
  have rz: "16 * scz + oz \<le> z" "z < 16 * scz + oz + 16" using q(3) by auto
  let ?b = "sectionDestBox (scx, scz) sourceCy (ox, oy, oz)"
  have cx: "x div 16 \<in> set [mincx ?b .. maxcx ?b - 1]"
    using div16_range[OF rx] by (simp add: mincx_def maxcx_def sectionDestBox_bounds drop_bit_eq_div)
  have cy: "y div 16 \<in> set [mincy ?b .. maxcy ?b - 1]"
    using div16_range[OF ry] by (simp add: mincy_def maxcy_def sectionDestBox_bounds drop_bit_eq_div)
  have cz: "z div 16 \<in> set [mincz ?b .. maxcz ?b - 1]"
    using div16_range[OF rz] by (simp add: mincz_def maxcz_def sectionDestBox_bounds drop_bit_eq_div)
  show "chunkOf p \<in> set (chunkPositions (sectionDestBox sourceCpos sourceCy off))"
    unfolding o s p chunkPositions_def using cx cz
    by (simp add: chunkOf_def drop_bit_eq_div image_iff)
  show "sectionOf p \<in> set (sectionPositions (sectionDestBox sourceCpos sourceCy off) cx cz)"
    unfolding o s p sectionPositions_def using cy
    by (simp add: sectionOf_def drop_bit_eq_div)
qed

section \<open>Every step only copies\<close>

lemma sourceMaskOf_selected:
  assumes "sourceMaskOf args c S sourceCpos sourceCy = Some sourceMask"
    and "chunkOf q = sourceCpos" "sectionOf q = sourceCy"
  shows "selectedAt args c S q = sourceMask (localIndex q)"
  using assms by (simp add: selectedAt_def)

lemma copyCell_sound:
  assumes m: "sourceMaskOf args c S sourceCpos sourceCy = Some sourceMask"
  shows "sound args c S st
           (snd (copyCell env args c sourceMask sourceCpos sourceCy
                   (sectionDestBox sourceCpos sourceCy (copyOffset c)) destCpos destCy st))"
  unfolding sound_def
proof (intro impI)
  let ?d = "destDim args"
  let ?r = "copyCell env args c sourceMask sourceCpos sourceCy
              (sectionDestBox sourceCpos sourceCy (copyOffset c)) destCpos destCy st"
  let ?ix = "cellIntersect (sectionDestBox sourceCpos sourceCy (copyOffset c)) destCpos destCy"
  assume ne: "destDim args \<noteq> sourceDim args" and S: "dims st (sourceDim args) = S"
  from sourceMaskOf_section[OF m] obtain ch sec where ch: "chunks S sourceCpos = Some ch"
    and sec: "getSection ch sourceCy = Some sec" by blast
  have src: "sectionAt (sourceDim args) sourceCpos sourceCy st = Some sec"
    using ch sec S by (simp add: sectionAt_def)
  note cb = copyCell_blockAt[OF ne src, of env c sourceMask destCpos destCy]
  have fr: "dims (snd ?r) (sourceDim args) = S"
    using frame_copyCell[of args st env c sourceMask sourceCpos sourceCy _ destCpos destCy] ne S
    by (simp add: frame_def)
  have w3: "blockAt (dims (snd ?r) ?d) p = Some v \<or> copiedTo args c S (dims (snd ?r) ?d) p"
    if h: "blockAt (dims st ?d) p = Some v" for p v
  proof (cases "volume ?ix \<noteq> 0 \<and> chunkOf p = destCpos \<and> sectionOf p = destCy")
    case False
    then show ?thesis using cb(3)[of p] h by auto
  next
    case True
    from h True obtain s0 where s0: "sectionAt ?d destCpos destCy st = Some s0"
      and v: "v = (Blocks s0 (localIndex p), Data s0 (localIndex p))"
      by (auto simp: blockAt_sectionAt split: option.splits)
    have g: "fst (getSection_create env ?d destCpos destCy st) = Some s0"
      using getSection_create_existing[OF _ s0, of env] by (metis prod.collapse)
    let ?q = "vsub p (copyOffset c)"
    show ?thesis
    proof (cases "chunkOf ?q = sourceCpos \<and> sectionOf ?q = sourceCy \<and> sourceMask (localIndex ?q)")
      case C: True
      have val: "blockAt (dims (snd ?r) ?d) p
                 = Some (convertBlocks c (Blocks sec (localIndex ?q), Data sec (localIndex ?q)))"
        using cb(3)[of p] True g C by simp
      have sel: "selectedAt args c S ?q"
        using sourceMaskOf_selected[OF m, of ?q] C by simp
      have "blockAt S ?q = Some (Blocks sec (localIndex ?q), Data sec (localIndex ?q))"
        using C ch sec by (simp add: blockAt_alt)
      with val sel have "copiedTo args c S (dims (snd ?r) ?d) p"
        unfolding copiedTo_def by blast
      then show ?thesis ..
    next
      case nC: False
      have "blockAt (dims (snd ?r) ?d) p = Some (Blocks s0 (localIndex p), Data s0 (localIndex p))"
        using cb(3)[of p] True g nC by auto
      then show ?thesis using v by simp
    qed
  qed
  have "writes_ok args c S (dims st ?d) (dims (snd ?r) ?d)"
    unfolding writes_ok_def using cb(2) w3 by blast
  with fr show "dims (snd ?r) (sourceDim args) = S \<and> writes_ok args c S (dims st ?d) (dims (snd ?r) ?d)"
    by simp
qed

lemma sound_getChunk_create:
  assumes "create args \<or> containsChunk (dims st (destDim args)) destCpos"
  shows "sound args c S st (getChunk_create env (destDim args) destCpos st)"
proof (cases "chunks (dims st (destDim args)) destCpos")
  case (Some ch)
  then have "getChunk_create env (destDim args) destCpos st = st" by (simp add: getChunk_create_def)
  then show ?thesis by (simp add: sound_refl)
next
  case None
  with assms have cr: "create args" by (simp add: containsChunk_def)
  let ?st' = "getChunk_create env (destDim args) destCpos st"
  have d: "chunks (dims ?st' (destDim args)) = (chunks (dims st (destDim args)))(destCpos \<mapsto> newChunk env destCpos)"
    using None by (simp add: getChunk_create_def setChunk_def setDim_def)
  show ?thesis
  proof (rule sound_keep)
    show "frame (destDim args) st ?st'" by (rule frame_getChunk_create)
    show "chunks (dims ?st' (destDim args)) cp \<noteq> None" if "chunks (dims st (destDim args)) cp \<noteq> None" for cp
      using that by (simp add: d)
    show "chunks (dims st (destDim args)) cp \<noteq> None" if "\<not> create args" for cp
      using that cr by simp
    show "blockAt (dims ?st' (destDim args)) p = Some v" if "blockAt (dims st (destDim args)) p = Some v" for p v
    proof -
      from that None have "chunkOf p \<noteq> destCpos" by (auto simp: blockAt_alt split: option.splits)
      with that show ?thesis by (simp add: blockAt_alt d)
    qed
  qed
qed

lemma sound_markDirty: "sound args c S st (markDirty (destDim args) cpos st)"
proof (cases "chunks (dims st (destDim args)) cpos")
  case None
  then have "markDirty (destDim args) cpos st = st" by (simp add: markDirty_def)
  then show ?thesis by (simp add: sound_refl)
next
  case (Some ch)
  let ?st' = "markDirty (destDim args) cpos st"
  have d: "chunks (dims ?st' (destDim args)) = (chunks (dims st (destDim args)))(cpos \<mapsto> ch\<lparr>dirty := True\<rparr>)"
    using Some by (simp add: markDirty_def setChunk_def setDim_def)
  show ?thesis
  proof (rule sound_keep)
    show "frame (destDim args) st ?st'" by (rule frame_markDirty)
    show "chunks (dims ?st' (destDim args)) cp \<noteq> None" if "chunks (dims st (destDim args)) cp \<noteq> None" for cp
      using that by (simp add: d)
    show "chunks (dims st (destDim args)) cp \<noteq> None" if "chunks (dims ?st' (destDim args)) cp \<noteq> None" for cp
      using that Some by (simp add: d split: if_splits)
    show "blockAt (dims ?st' (destDim args)) p = Some v" if "blockAt (dims st (destDim args)) p = Some v" for p v
      using that Some by (auto simp: blockAt_alt d split: option.splits)
  qed
qed

lemma copyDestChunk_sound:
  assumes m: "sourceMaskOf args c S sourceCpos sourceCy = Some sourceMask"
  shows "sound args c S st
           (snd (copyDestChunk env args c sourceMask sourceCpos sourceCy
                   (sectionDestBox sourceCpos sourceCy (copyOffset c)) destCpos st))"
proof (cases "\<not> create args \<and> \<not> containsChunk (dims st (destDim args)) destCpos")
  case True
  then show ?thesis by (simp add: copyDestChunk_def sound_refl)
next
  case False
  let ?b = "sectionDestBox sourceCpos sourceCy (copyOffset c)"
  let ?st0 = "getChunk_create env (destDim args) destCpos st"
  let ?r = "forEach (copyCell env args c sourceMask sourceCpos sourceCy ?b destCpos)
              (sectionPositions ?b (fst destCpos) (snd destCpos)) ?st0"
  have s0: "sound args c S st ?st0" using False by (intro sound_getChunk_create) simp
  have "sound args c S ?st0 (snd ?r)"
    by (rule forEach_rel[where R="sound args c S"]) (auto intro: sound_refl sound_trans copyCell_sound[OF m])
  with s0 have s1: "sound args c S st (snd ?r)" by (rule sound_trans)
  have s2: "sound args c S st (markDirty (destDim args) destCpos (snd ?r))"
    using s1 sound_markDirty by (rule sound_trans)
  show ?thesis
    using False s1 s2 by (auto simp: copyDestChunk_def split: prod.splits option.splits)
qed

lemma copySection_sound:
  "sound args c S st (snd (copySection env args c hasBiomes sourceCpos sourceCy st))"
  unfolding sound_def
proof (intro impI)
  let ?r = "copySection env args c hasBiomes sourceCpos sourceCy st"
  assume ne: "destDim args \<noteq> sourceDim args" and S: "dims st (sourceDim args) = S"
  have "sound args c S st (snd ?r)"
  proof (cases "sourceMaskOf args c S sourceCpos sourceCy")
    case None
    then have "snd ?r = st"
      using S by (auto simp: copySection_def sourceMaskOf_def sectionAt_def split: option.splits sum.splits)
    then show ?thesis by (simp add: sound_refl)
  next
    case (Some sourceMask)
    let ?b = "sectionDestBox sourceCpos sourceCy (copyOffset c)"
    let ?st0 = "if hasBiomes then orBiomeMask sourceMask st else st"
    have r: "?r = forEach (copyDestChunk env args c sourceMask sourceCpos sourceCy ?b) (chunkPositions ?b) ?st0"
      using Some S
      by (auto simp: copySection_def sourceMaskOf_def sectionAt_def Let_def split: option.splits sum.splits)
    have s0: "sound args c S st ?st0" by (rule sound_same) (simp add: orBiomeMask_def)
    have "sound args c S ?st0 (snd (forEach (copyDestChunk env args c sourceMask sourceCpos sourceCy ?b) (chunkPositions ?b) ?st0))"
      by (rule forEach_rel[where R="sound args c S"]) (auto intro: sound_refl sound_trans copyDestChunk_sound[OF Some])
    with s0 show ?thesis unfolding r by (rule sound_trans)
  qed
  with ne S show "dims (snd ?r) (sourceDim args) = S
      \<and> writes_ok args c S (dims st (destDim args)) (dims (snd ?r) (destDim args))"
    by (simp add: sound_def)
qed

lemma sound_setBiome: "sound args c S st (setBiome (destDim args) w st)"
proof -
  obtain x z v where w: "w = (x, z, v)" by (cases w) auto
  let ?cp = "(drop_bit 4 x, drop_bit 4 z)"
  show ?thesis
  proof (cases "chunks (dims st (destDim args)) ?cp")
    case None
    then show ?thesis by (simp add: w setBiome_def sound_refl)
  next
    case (Some ch)
    show ?thesis
    proof (cases "Biomes ch")
      case None
      with Some show ?thesis by (simp add: w setBiome_def sound_refl)
    next
      case (Some arr)
      let ?st' = "setBiome (destDim args) w st"
      have d: "chunks (dims ?st' (destDim args))
               = (chunks (dims st (destDim args)))(?cp \<mapsto> ch\<lparr>Biomes := Some (arr((nat (x mod 16), nat (z mod 16)) := v))\<rparr>)"
        using Some \<open>chunks (dims st (destDim args)) ?cp = Some ch\<close>
        by (simp add: w setBiome_def setChunk_def setDim_def)
      have fr: "frame (destDim args) st ?st'"
        by (simp add: w setBiome_def frame_def setChunk_def setDim_def split: option.splits)
      show ?thesis
      proof (rule sound_keep[OF fr])
        show "chunks (dims ?st' (destDim args)) cp \<noteq> None" if "chunks (dims st (destDim args)) cp \<noteq> None" for cp
          using that by (simp add: d)
        show "chunks (dims st (destDim args)) cp \<noteq> None" if "chunks (dims ?st' (destDim args)) cp \<noteq> None" for cp
          using that \<open>chunks (dims st (destDim args)) ?cp = Some ch\<close> by (simp add: d split: if_splits)
        show "blockAt (dims ?st' (destDim args)) p = Some v'" if "blockAt (dims st (destDim args)) p = Some v'" for p v'
          using that \<open>chunks (dims st (destDim args)) ?cp = Some ch\<close>
          by (auto simp: blockAt_alt d split: option.splits)
      qed
    qed
  qed
qed

lemma sound_copyBiomes: "sound args c S st (copyBiomes args hasBiomes sourceCpos st)"
proof -
  have sb: "sound args c S s (setBlocks_Biomes (destDim args) xs zs vals s)" for xs zs vals s
  proof -
    have "sound args c S (emit (SetBiomes (destDim args) xs zs vals) s) (setBlocks_Biomes (destDim args) xs zs vals s)"
      unfolding setBlocks_Biomes_def
      by (rule fold_rel[where R="sound args c S"]) (auto intro: sound_refl sound_trans sound_setBiome)
    moreover have "sound args c S s (emit (SetBiomes (destDim args) xs zs vals) s)"
      by (rule sound_same) simp
    ultimately show ?thesis by (rule sound_trans[rotated])
  qed
  show ?thesis
    by (auto simp: copyBiomes_def Let_def sound_refl sb split: option.splits)
qed

lemma chunkBody_sound: "sound args c S st (snd (chunkBody env args c sourceCpos st))"
  by (rule chunkBody_rel[where R="sound args c S"])
     (auto intro: sound_refl sound_trans copySection_sound sound_copyBiomes sound_same)

lemma visitChunk_sound: "sound args c S st (snd (visitChunk env args c sourceCpos st))"
proof -
  let ?st0 = "emit (Yield (i st + 1) (c_chunkCount c)) (st\<lparr>i := i st + 1\<rparr>)"
  have "sound args c S st ?st0" by (rule sound_same) simp
  then have "sound args c S st (snd (chunkBody env args c sourceCpos ?st0))"
    using chunkBody_sound by (rule sound_trans)
  then show ?thesis by (simp add: visitChunk_def sound_refl)
qed

section \<open>The copy reaches every available position\<close>

lemma ready_keep:
  assumes "writes_ok args c S D D'" "ready env args D p"
  shows "ready env args D' p"
proof -
  from assms(2) have "avail env args D p" by (simp add: ready_def avail_def)
  from avail_keep[OF assms(1) this] have "blockAt D' p \<noteq> None \<or> newSection env (sectionOf p) \<noteq> None"
    by (simp add: avail_def)
  moreover have "chunks D' (chunkOf p) \<noteq> None"
    using assms unfolding writes_ok_def ready_def by blast
  ultimately show ?thesis by (simp add: ready_def)
qed

lemma copyCell_landed:
  assumes ne: "destDim args \<noteq> sourceDim args"
    and S: "dims st (sourceDim args) = S"
    and m: "sourceMaskOf args c S sourceCpos sourceCy = Some sourceMask"
    and cell: "chunkOf p = destCpos" "sectionOf p = destCy"
    and scell: "chunkOf (vsub p (copyOffset c)) = sourceCpos" "sectionOf (vsub p (copyOffset c)) = sourceCy"
    and rdy: "ready env args (dims st (destDim args)) p"
  shows "landedAt args c S p
           (snd (copyCell env args c sourceMask sourceCpos sourceCy
                   (sectionDestBox sourceCpos sourceCy (copyOffset c)) destCpos destCy st))"
proof -
  let ?d = "destDim args"
  let ?q = "vsub p (copyOffset c)"
  let ?r = "copyCell env args c sourceMask sourceCpos sourceCy
              (sectionDestBox sourceCpos sourceCy (copyOffset c)) destCpos destCy st"
  from sourceMaskOf_section[OF m] obtain ch sec where ch: "chunks S sourceCpos = Some ch"
    and sec: "getSection ch sourceCy = Some sec" by blast
  have src: "sectionAt (sourceDim args) sourceCpos sourceCy st = Some sec"
    using ch sec S by (simp add: sectionAt_def)
  note cb = copyCell_blockAt[OF ne src, of env c sourceMask destCpos destCy]
  have fr: "dims (snd ?r) (sourceDim args) = S"
    using frame_copyCell[of args st env c sourceMask sourceCpos sourceCy _ destCpos destCy] ne S
    by (simp add: frame_def)
  have nz: "volume (cellIntersect (sectionDestBox sourceCpos sourceCy (copyOffset c)) destCpos destCy) \<noteq> 0"
    by (rule cell_nonempty_vec[OF cell scell])
  have ex: "chunks (dims st ?d) destCpos \<noteq> None" using rdy cell by (simp add: ready_def)
  have "sectionAt ?d destCpos destCy st \<noteq> None \<or> newSection env destCy \<noteq> None"
    using rdy cell by (auto simp: ready_def blockAt_sectionAt split: option.splits)
  then have "fst (getSection_create env ?d destCpos destCy st) \<noteq> None"
    using getSection_create_facts(6)[OF prod.collapse[symmetric] ex] by blast
  then obtain ds where g: "fst (getSection_create env ?d destCpos destCy st) = Some ds" by auto
  have val: "blockAt (dims (snd ?r) ?d) p =
      (if sourceMask (localIndex ?q)
       then Some (convertBlocks c (Blocks sec (localIndex ?q), Data sec (localIndex ?q)))
       else Some (Blocks ds (localIndex p), Data ds (localIndex p)))"
    using cb(3)[of p] nz cell scell g by simp
  have bq: "blockAt S ?q = Some (Blocks sec (localIndex ?q), Data sec (localIndex ?q))"
    using scell ch sec by (simp add: blockAt_alt)
  have "copiedTo args c S (dims (snd ?r) ?d) p" if "selectedAt args c S ?q"
  proof -
    from that have "sourceMask (localIndex ?q)"
      using sourceMaskOf_selected[OF m scell] by simp
    with val bq that show ?thesis unfolding copiedTo_def by simp
  qed
  moreover have "blockAt (dims (snd ?r) ?d) p \<noteq> None" using val by simp
  ultimately show ?thesis using fr by (simp add: landedAt_def landed_def)
qed

lemma sound_facts:
  assumes "destDim args \<noteq> sourceDim args" "dims st (sourceDim args) = S" "sound args c S st t"
  shows "dims t (sourceDim args) = S"
    and "writes_ok args c S (dims st (destDim args)) (dims t (destDim args))"
  using assms by (simp_all add: sound_def)

lemma copyDestChunk_landed:
  assumes ne: "destDim args \<noteq> sourceDim args"
    and S: "dims st (sourceDim args) = S"
    and m: "sourceMaskOf args c S sourceCpos sourceCy = Some sourceMask"
    and ok: "fst (copyDestChunk env args c sourceMask sourceCpos sourceCy
                    (sectionDestBox sourceCpos sourceCy (copyOffset c)) destCpos st) = None"
    and cell: "chunkOf p = destCpos"
    and scell: "chunkOf (vsub p (copyOffset c)) = sourceCpos" "sectionOf (vsub p (copyOffset c)) = sourceCy"
    and av: "avail env args (dims st (destDim args)) p"
  shows "landedAt args c S p
           (snd (copyDestChunk env args c sourceMask sourceCpos sourceCy
                   (sectionDestBox sourceCpos sourceCy (copyOffset c)) destCpos st))"
proof -
  let ?d = "destDim args"
  let ?b = "sectionDestBox sourceCpos sourceCy (copyOffset c)"
  let ?st0 = "getChunk_create env ?d destCpos st"
  let ?body = "copyCell env args c sourceMask sourceCpos sourceCy ?b destCpos"
  let ?xs = "sectionPositions ?b (fst destCpos) (snd destCpos)"
  have go: "create args \<or> containsChunk (dims st ?d) destCpos"
    using av cell by (auto simp: avail_def containsChunk_def)
  obtain err st1 where r: "forEach ?body ?xs ?st0 = (err, st1)" by (cases "forEach ?body ?xs ?st0")
  from ok go r have err: "err = None"
    by (cases err) (auto simp: copyDestChunk_def)
  from go r err have res: "snd (copyDestChunk env args c sourceMask sourceCpos sourceCy ?b destCpos st)
      = markDirty ?d destCpos st1"
    by (auto simp: copyDestChunk_def)
  have s0: "sound args c S st ?st0" by (rule sound_getChunk_create[OF go])
  note f0 = sound_facts[OF ne S s0]
  have ex0: "chunks (dims ?st0 ?d) destCpos \<noteq> None"
    by (simp add: getChunk_create_def setChunk_def setDim_def split: option.splits)
  have "avail env args (dims ?st0 ?d) p" by (rule avail_keep[OF f0(2) av])
  with ex0 cell have r0: "ready env args (dims ?st0 ?d) p" by (simp add: avail_def ready_def)
  have "landedAt args c S p (snd (forEach ?body ?xs ?st0))"
  proof (rule forEach_establish[where R="sound args c S" and x="sectionOf p"])
    show "sound args c S s s" for s by (rule sound_refl)
    show "sound args c S s s''" if "sound args c S s s'" "sound args c S s' s''" for s s' s''
      using that by (rule sound_trans)
    show "landedAt args c S p t'" if "sound args c S t t'" "landedAt args c S p t" for t t'
      using ne that by (rule landedAt_keep)
    show "sound args c S t (snd (?body y t))" for y t by (rule copyCell_sound[OF m])
    show "landedAt args c S p (snd (?body (sectionOf p) t))" if "sound args c S ?st0 t" for t
    proof -
      note ft = sound_facts[OF ne f0(1) that]
      have "ready env args (dims t ?d) p" by (rule ready_keep[OF ft(2) r0])
      from copyCell_landed[OF ne ft(1) m cell refl scell this] show ?thesis .
    qed
    show "sectionOf p \<in> set ?xs" by (rule chunk_listed(2)[OF scell])
    show "fst (forEach ?body ?xs ?st0) = None" using r err by simp
  qed
  then have "landedAt args c S p st1" using r by simp
  with ne sound_markDirty have "landedAt args c S p (markDirty ?d destCpos st1)"
    by (rule landedAt_keep)
  then show ?thesis by (simp only: res)
qed

lemma copySection_landed:
  assumes ne: "destDim args \<noteq> sourceDim args"
    and S: "dims st (sourceDim args) = S"
    and ok: "fst (copySection env args c hasBiomes sourceCpos sourceCy st) = None"
    and scell: "chunkOf (vsub p (copyOffset c)) = sourceCpos" "sectionOf (vsub p (copyOffset c)) = sourceCy"
    and ch: "chunks S sourceCpos = Some ch" and sec: "getSection ch sourceCy = Some sec"
    and selm: "section_mask (sourceSelection args) (fst sourceCpos) sourceCy (snd sourceCpos) = Some selectionMask"
    and av: "avail env args (dims st (destDim args)) p"
  shows "landedAt args c S p (snd (copySection env args c hasBiomes sourceCpos sourceCy st))"
proof -
  let ?d = "destDim args"
  let ?b = "sectionDestBox sourceCpos sourceCy (copyOffset c)"
  have src: "sectionAt (sourceDim args) sourceCpos sourceCy st = Some sec"
    using ch sec S by (simp add: sectionAt_def)
  from ok src selm obtain typeMask where tm: "makeSourceMask c (Blocks sec) = Inr typeMask"
    by (cases "makeSourceMask c (Blocks sec)") (auto simp: copySection_def)
  define sourceMask where "sourceMask = (\<lambda>idx. selectionMask idx \<and> typeMask idx)"
  have m: "sourceMaskOf args c S sourceCpos sourceCy = Some sourceMask"
    using ch sec selm tm by (simp add: sourceMaskOf_def sourceMask_def)
  let ?st0 = "if hasBiomes then orBiomeMask sourceMask st else st"
  let ?body = "copyDestChunk env args c sourceMask sourceCpos sourceCy ?b"
  have r: "copySection env args c hasBiomes sourceCpos sourceCy st = forEach ?body (chunkPositions ?b) ?st0"
    using src selm tm by (simp add: copySection_def Let_def sourceMask_def)
  have d0: "dims ?st0 = dims st" by (simp add: orBiomeMask_def)
  have S0: "dims ?st0 (sourceDim args) = S" using S d0 by simp
  have av0: "avail env args (dims ?st0 ?d) p" using av d0 by simp
  have "landedAt args c S p (snd (forEach ?body (chunkPositions ?b) ?st0))"
  proof (rule forEach_establish[where R="sound args c S" and x="chunkOf p"])
    show "sound args c S s s" for s by (rule sound_refl)
    show "sound args c S s s''" if "sound args c S s s'" "sound args c S s' s''" for s s' s''
      using that by (rule sound_trans)
    show "landedAt args c S p t'" if "sound args c S t t'" "landedAt args c S p t" for t t'
      using ne that by (rule landedAt_keep)
    show "sound args c S t (snd (?body y t))" for y t by (rule copyDestChunk_sound[OF m])
    show "landedAt args c S p (snd (?body (chunkOf p) t))"
      if "sound args c S ?st0 t" "fst (?body (chunkOf p) t) = None" for t
    proof -
      note ft = sound_facts[OF ne S0 that(1)]
      have "avail env args (dims t ?d) p" by (rule avail_keep[OF ft(2) av0])
      from copyDestChunk_landed[OF ne ft(1) m that(2) refl scell this] show ?thesis .
    qed
    show "chunkOf p \<in> set (chunkPositions ?b)" by (rule chunk_listed(1)[OF scell])
    show "fst (forEach ?body (chunkPositions ?b) ?st0) = None" using ok r by simp
  qed
  then show ?thesis by (simp only: r)
qed

lemma chunkBody_landed:
  assumes ne: "destDim args \<noteq> sourceDim args"
    and S: "dims st (sourceDim args) = S"
    and ok: "fst (chunkBody env args c sourceCpos st) = None"
    and scell: "chunkOf (vsub p (copyOffset c)) = sourceCpos"
    and ch: "chunks S sourceCpos = Some ch"
    and lst: "sectionOf (vsub p (copyOffset c)) \<in> set (Chunk_sectionPositions ch)"
    and sec: "getSection ch (sectionOf (vsub p (copyOffset c))) = Some sec"
    and selm: "section_mask (sourceSelection args) (fst sourceCpos) (sectionOf (vsub p (copyOffset c)))
                 (snd sourceCpos) = Some selectionMask"
    and av: "avail env args (dims st (destDim args)) p"
  shows "landedAt args c S p (snd (chunkBody env args c sourceCpos st))"
proof -
  let ?d = "destDim args"
  define h where "h = (biomes args \<and> Biomes ch \<noteq> None)"
  define st0 where "st0 = (if h then st\<lparr>sourceBiomeMask := Some (\<lambda>col. False)\<rparr> else st)"
  let ?body = "copySection env args c h sourceCpos"
  have ch': "chunks (dims st (sourceDim args)) sourceCpos = Some ch" using ch S by simp
  obtain err s1 where r: "forEach ?body (Chunk_sectionPositions ch) st0 = (err, s1)"
    by (cases "forEach ?body (Chunk_sectionPositions ch) st0")
  from ok r have err: "err = None"
    by (cases err) (auto simp: chunkBody_unfold[OF ch'] h_def st0_def)
  from r err have res: "snd (chunkBody env args c sourceCpos st)
      = copyTileEntities args c sourceCpos (copyEntities args c sourceCpos (copyBiomes args h sourceCpos s1))"
    by (simp add: chunkBody_unfold[OF ch'] h_def st0_def)
  have d0: "dims st0 = dims st" by (simp add: st0_def)
  have S0: "dims st0 (sourceDim args) = S" using S d0 by simp
  have av0: "avail env args (dims st0 ?d) p" using av d0 by simp
  have "landedAt args c S p (snd (forEach ?body (Chunk_sectionPositions ch) st0))"
  proof (rule forEach_establish[where R="sound args c S" and x="sectionOf (vsub p (copyOffset c))"])
    show "sound args c S s s" for s by (rule sound_refl)
    show "sound args c S s s''" if "sound args c S s s'" "sound args c S s' s''" for s s' s''
      using that by (rule sound_trans)
    show "landedAt args c S p t'" if "sound args c S t t'" "landedAt args c S p t" for t t'
      using ne that by (rule landedAt_keep)
    show "sound args c S t (snd (?body y t))" for y t by (rule copySection_sound)
    show "landedAt args c S p (snd (?body (sectionOf (vsub p (copyOffset c))) t))"
      if "sound args c S st0 t" "fst (?body (sectionOf (vsub p (copyOffset c))) t) = None" for t
    proof -
      note ft = sound_facts[OF ne S0 that(1)]
      have "avail env args (dims t ?d) p" by (rule avail_keep[OF ft(2) av0])
      from copySection_landed[OF ne ft(1) that(2) scell refl ch sec selm this] show ?thesis .
    qed
    show "sectionOf (vsub p (copyOffset c)) \<in> set (Chunk_sectionPositions ch)" by (rule lst)
    show "fst (forEach ?body (Chunk_sectionPositions ch) st0) = None" using r err by simp
  qed
  then have l1: "landedAt args c S p s1" using r by simp
  have "sound args c S s1 (copyBiomes args h sourceCpos s1)" by (rule sound_copyBiomes)
  with ne have l2: "landedAt args c S p (copyBiomes args h sourceCpos s1)"
    using l1 by (rule landedAt_keep)
  have "dims (copyTileEntities args c sourceCpos (copyEntities args c sourceCpos (copyBiomes args h sourceCpos s1)))
        = dims (copyBiomes args h sourceCpos s1)" by simp
  with l2 show ?thesis unfolding res by (simp add: landedAt_def)
qed

lemma visitChunk_landed:
  assumes ne: "destDim args \<noteq> sourceDim args"
    and S: "dims st (sourceDim args) = S"
    and ok: "fst (visitChunk env args c sourceCpos st) = None"
    and scell: "chunkOf (vsub p (copyOffset c)) = sourceCpos"
    and ch: "chunks S sourceCpos = Some ch"
    and lst: "sectionOf (vsub p (copyOffset c)) \<in> set (Chunk_sectionPositions ch)"
    and sec: "getSection ch (sectionOf (vsub p (copyOffset c))) = Some sec"
    and selm: "section_mask (sourceSelection args) (fst sourceCpos) (sectionOf (vsub p (copyOffset c)))
                 (snd sourceCpos) = Some selectionMask"
    and av: "avail env args (dims st (destDim args)) p"
  shows "landedAt args c S p (snd (visitChunk env args c sourceCpos st))"
proof -
  let ?st0 = "emit (Yield (i st + 1) (c_chunkCount c)) (st\<lparr>i := i st + 1\<rparr>)"
  have has: "containsChunk (dims st (sourceDim args)) sourceCpos" using ch S by (simp add: containsChunk_def)
  then have v: "visitChunk env args c sourceCpos st = chunkBody env args c sourceCpos ?st0"
    by (simp add: visitChunk_def)
  have d0: "dims ?st0 = dims st" by simp
  have S0: "dims ?st0 (sourceDim args) = S" using S by simp
  have av0: "avail env args (dims ?st0 (destDim args)) p" using av by simp
  have ok0: "fst (chunkBody env args c sourceCpos ?st0) = None" using ok v by simp
  from chunkBody_landed[OF ne S0 ok0 scell ch lst sec selm av0] show ?thesis by (simp only: v)
qed

lemma loop_sound:
  "sound args c S st0 (snd (forEach (visitChunk env args c) xs st0))"
  by (rule forEach_rel[where R="sound args c S"]) (auto intro: sound_refl sound_trans visitChunk_sound)

lemma loop_landed:
  assumes ne: "destDim args \<noteq> sourceDim args"
    and S: "dims st0 (sourceDim args) = S"
    and ok: "fst (forEach (visitChunk env args c) xs st0) = None"
    and x: "chunkOf (vsub p (copyOffset c)) \<in> set xs"
    and ch: "chunks S (chunkOf (vsub p (copyOffset c))) = Some ch"
    and lst: "sectionOf (vsub p (copyOffset c)) \<in> set (Chunk_sectionPositions ch)"
    and sec: "getSection ch (sectionOf (vsub p (copyOffset c))) = Some sec"
    and selm: "section_mask (sourceSelection args) (fst (chunkOf (vsub p (copyOffset c))))
                 (sectionOf (vsub p (copyOffset c))) (snd (chunkOf (vsub p (copyOffset c)))) = Some selectionMask"
    and av: "avail env args (dims st0 (destDim args)) p"
  shows "landedAt args c S p (snd (forEach (visitChunk env args c) xs st0))"
proof (rule forEach_establish[where R="sound args c S" and x="chunkOf (vsub p (copyOffset c))"])
  show "sound args c S s s" for s by (rule sound_refl)
  show "sound args c S s s''" if "sound args c S s s'" "sound args c S s' s''" for s s' s''
    using that by (rule sound_trans)
  show "landedAt args c S p t'" if "sound args c S t t'" "landedAt args c S p t" for t t'
    using ne that by (rule landedAt_keep)
  show "sound args c S t (snd (visitChunk env args c y t))" for y t by (rule visitChunk_sound)
  show "landedAt args c S p (snd (visitChunk env args c (chunkOf (vsub p (copyOffset c))) t))"
    if "sound args c S st0 t" "fst (visitChunk env args c (chunkOf (vsub p (copyOffset c))) t) = None" for t
  proof -
    note ft = sound_facts[OF ne S that(1)]
    have "avail env args (dims t (destDim args)) p" by (rule avail_keep[OF ft(2) av])
    from visitChunk_landed[OF ne ft(1) that(2) refl ch lst sec selm this] show ?thesis .
  qed
  show "chunkOf (vsub p (copyOffset c)) \<in> set xs" by (rule x)
  show "fst (forEach (visitChunk env args c) xs st0) = None" by (rule ok)
qed

section \<open>The masked write and the creation of sections\<close>

lemma prologue_consts:
  assumes "prologue env args st = Inr (c, st0)"
  shows "dims st0 = dims st"
    and "copyOffset c = vsub (destinationPoint args) (origin (sourceSelection args))"
    and "convertBlocks c = blocktypeConverter env (blocktypes (dims st (destDim args)))
                             (blocktypes (dims st (sourceDim args)))"
    and "sourceMaskFunc (id_limit env) (blocksToCopy args) = Inr (makeSourceMask c)"
  using assms by (auto simp: prologue_def Let_def split: sum.splits)

lemma run_copy:
  assumes ne: "destDim args \<noteq> sourceDim args"
    and run: "exhaust env args NotStarted st = (StopIteration, st')"
  shows "\<exists>c. copyOffset c = vsub (destinationPoint args) (origin (sourceSelection args))
           \<and> convertBlocks c = blocktypeConverter env (blocktypes (dims st (destDim args)))
                                  (blocktypes (dims st (sourceDim args)))
           \<and> sourceMaskFunc (id_limit env) (blocksToCopy args) = Inr (makeSourceMask c)
           \<and> writes_ok args c (dims st (sourceDim args)) (dims st (destDim args)) (dims st' (destDim args))
           \<and> (\<forall>p ch sec selectionMask.
                 chunkOf (vsub p (copyOffset c)) \<in> set (Selection_chunkPositions (sourceSelection args)) \<longrightarrow>
                 chunks (dims st (sourceDim args)) (chunkOf (vsub p (copyOffset c))) = Some ch \<longrightarrow>
                 sectionOf (vsub p (copyOffset c)) \<in> set (Chunk_sectionPositions ch) \<longrightarrow>
                 getSection ch (sectionOf (vsub p (copyOffset c))) = Some sec \<longrightarrow>
                 section_mask (sourceSelection args) (fst (chunkOf (vsub p (copyOffset c))))
                   (sectionOf (vsub p (copyOffset c))) (snd (chunkOf (vsub p (copyOffset c)))) = Some selectionMask \<longrightarrow>
                 avail env args (dims st (destDim args)) p \<longrightarrow>
                 landed args c (dims st (sourceDim args)) (dims st' (destDim args)) p)"
proof -
  let ?S = "dims st (sourceDim args)"
  from run obtain c st0 where p: "prologue env args st = Inr (c, st0)"
    by (auto simp: exhaust_NotStarted split: sum.splits)
  note pc = prologue_consts[OF p]
  let ?xs = "Selection_chunkPositions (sourceSelection args)"
  let ?r = "forEach (visitChunk env args c) ?xs st0"
  from run p have fin: "finish env args ?r = (StopIteration, st')"
    by (simp add: exhaust_NotStarted)
  obtain s1 where r: "?r = (None, s1)" and e: "epilogue env args s1 = (StopIteration, st')"
    using fin by (cases ?r) (auto simp: finish_def split: option.splits)
  have d': "dims st' = dims s1" using dims_epilogue[of env args s1] e by simp
  have S0: "dims st0 (sourceDim args) = ?S" using pc(1) by simp
  have "sound args c ?S st0 (snd ?r)" by (rule loop_sound)
  then have snd1: "sound args c ?S st0 s1" using r by simp
  have w: "writes_ok args c ?S (dims st (destDim args)) (dims st' (destDim args))"
    using sound_facts(2)[OF ne S0 snd1] pc(1) d' by simp
  have l: "landed args c ?S (dims st' (destDim args)) p"
    if "chunkOf (vsub p (copyOffset c)) \<in> set ?xs"
      "chunks ?S (chunkOf (vsub p (copyOffset c))) = Some ch"
      "sectionOf (vsub p (copyOffset c)) \<in> set (Chunk_sectionPositions ch)"
      "getSection ch (sectionOf (vsub p (copyOffset c))) = Some sec"
      "section_mask (sourceSelection args) (fst (chunkOf (vsub p (copyOffset c))))
         (sectionOf (vsub p (copyOffset c))) (snd (chunkOf (vsub p (copyOffset c)))) = Some selectionMask"
      "avail env args (dims st (destDim args)) p" for p ch sec selectionMask
  proof -
    have av0: "avail env args (dims st0 (destDim args)) p" using that(6) pc(1) by simp
    have ok: "fst ?r = None" using r by simp
    from loop_landed[OF ne S0 ok that(1-5) av0] r d' show ?thesis by (simp add: landedAt_def)
  qed
  show ?thesis
    by (rule exI[of _ c]) (use pc(2-4) w l in blast)
qed



text \<open>
  Claim C10. Creation is off, source and destination are two dimensions, and the run
  completes. When a stored source section that the loops enumerate and the selection
  touches lies, moved by the offset, over a position \<open>p\<close> of an existing destination
  chunk, the destination has a section at \<open>p\<close> afterwards whenever it had one or one can
  be made (line 130 asks for the section with \<open>create=True\<close>); and the destination has
  exactly the chunks it had before (line 119 skips a missing chunk).
\<close>

theorem C10_sections_created:
  assumes ne: "destDim args \<noteq> sourceDim args"
    and off: "\<not> create args"
    and run: "exhaust env args NotStarted st = (StopIteration, st')"
    and q: "q = vsub p (vsub (destinationPoint args) (origin (sourceSelection args)))"
    and enum: "enumerated (sourceSelection args) (dims st (sourceDim args)) q"
    and stored: "blockAt (dims st (sourceDim args)) q \<noteq> None"
    and tch: "touched (sourceSelection args) q"
    and chunk: "chunks (dims st (destDim args)) (chunkOf p) \<noteq> None"
    and new: "newSection env (sectionOf p) \<noteq> None"
  shows "blockAt (dims st' (destDim args)) p \<noteq> None
       \<and> (chunks (dims st' (destDim args)) cp \<noteq> None) = (chunks (dims st (destDim args)) cp \<noteq> None)"
proof -
  let ?S = "dims st (sourceDim args)"
  let ?D = "dims st (destDim args)"
  let ?D' = "dims st' (destDim args)"
  from run_copy[OF ne run] obtain c where c: "copyOffset c = vsub (destinationPoint args) (origin (sourceSelection args))"
    and w: "writes_ok args c ?S ?D ?D'"
    and l: "\<And>p ch sec selectionMask.
                 chunkOf (vsub p (copyOffset c)) \<in> set (Selection_chunkPositions (sourceSelection args)) \<Longrightarrow>
                 chunks ?S (chunkOf (vsub p (copyOffset c))) = Some ch \<Longrightarrow>
                 sectionOf (vsub p (copyOffset c)) \<in> set (Chunk_sectionPositions ch) \<Longrightarrow>
                 getSection ch (sectionOf (vsub p (copyOffset c))) = Some sec \<Longrightarrow>
                 section_mask (sourceSelection args) (fst (chunkOf (vsub p (copyOffset c))))
                   (sectionOf (vsub p (copyOffset c))) (snd (chunkOf (vsub p (copyOffset c)))) = Some selectionMask \<Longrightarrow>
                 avail env args ?D p \<Longrightarrow>
                 landed args c ?S ?D' p"
    by blast
  have qc: "vsub p (copyOffset c) = q" using q c by simp
  from enum obtain ch where ch: "chunkOf q \<in> set (Selection_chunkPositions (sourceSelection args))"
    "chunks ?S (chunkOf q) = Some ch" "sectionOf q \<in> set (Chunk_sectionPositions ch)"
    by (auto simp: enumerated_def split: option.splits)
  from stored ch(2) obtain sec where sec: "getSection ch (sectionOf q) = Some sec"
    by (auto simp: blockAt_alt split: option.splits)
  from tch obtain sm where sm: "section_mask (sourceSelection args) (fst (chunkOf q)) (sectionOf q)
      (snd (chunkOf q)) = Some sm"
    by (auto simp: touched_def)
  have av: "avail env args ?D p" using chunk new by (simp add: avail_def)
  have "landed args c ?S ?D' p"
    by (rule l) (use ch sec sm av qc in simp_all)
  then have 1: "blockAt ?D' p \<noteq> None" by (simp add: landed_def)
  have 2: "(chunks ?D' cp \<noteq> None) = (chunks ?D cp \<noteq> None)"
    using w off unfolding writes_ok_def by blast
  from 1 2 show ?thesis by simp
qed

theorem C10_sections_created_witness:
  "destDim (ex_args 1 ex_sel (15, 31, 15) LightsOff) \<noteq> sourceDim (ex_args 1 ex_sel (15, 31, 15) LightsOff)
   \<and> \<not> create (ex_args 1 ex_sel (15, 31, 15) LightsOff)
   \<and> fst (exhaust ex_env2 (ex_args 1 ex_sel (15, 31, 15) LightsOff) NotStarted (ex_state air1 stone1)) = StopIteration
   \<and> enumerated ex_sel stone1 (0, 0, 0)
   \<and> blockAt stone1 (0, 0, 0) = Some (1, 0)
   \<and> touched ex_sel (0, 0, 0)
   \<and> chunks air1 (chunkOf (15, 31, 15)) \<noteq> None
   \<and> newSection ex_env2 (sectionOf (15, 31, 15)) \<noteq> None
   \<and> blockAt air1 (15, 31, 15) = None
   \<and> blockAt (dims (snd (exhaust ex_env2 (ex_args 1 ex_sel (15, 31, 15) LightsOff) NotStarted (ex_state air1 stone1))) 0)
        (15, 31, 15) \<noteq> None
   \<and> chunks air1 (1, 0) = None
   \<and> chunks (dims (snd (exhaust ex_env2 (ex_args 1 ex_sel (15, 31, 15) LightsOff) NotStarted (ex_state air1 stone1))) 0)
        (1, 0) = None"
proof -
  let ?a = "ex_args 1 ex_sel (15, 31, 15) LightsOff"
  let ?st = "ex_state air1 stone1"
  let ?r = "exhaust ex_env2 ?a NotStarted ?st"
  have a: "destDim ?a = 0" "sourceDim ?a = 1" "\<not> create ?a" "sourceSelection ?a = ex_sel"
    "destinationPoint ?a = (15, 31, 15)"
    by (simp_all add: ex_args_def)
  have o: "origin ex_sel = (0, 0, 0)" by (simp add: ex_sel_def)
  have d: "dims ?st 0 = air1" "dims ?st 1 = stone1" by (simp_all add: ex_state_def)
  have ne: "destDim ?a \<noteq> sourceDim ?a" by (simp add: ex_args_def)
  have s: "fst ?r = StopIteration" by code_simp
  then have run: "?r = (StopIteration, snd ?r)" by (metis prod.collapse)
  have q: "(0, 0, 0) = vsub (15, 31, 15) (vsub (destinationPoint ?a) (origin (sourceSelection ?a)))"
    by (simp add: a o vsub_def del: One_nat_def)
  have h1: "enumerated ex_sel stone1 (0, 0, 0)" by code_simp
  have h2: "blockAt stone1 (0, 0, 0) = Some (1, 0)" by code_simp
  have h3: "touched ex_sel (0, 0, 0)" by (simp add: touched_def ex_sel_def chunkOf_def sectionOf_def)
  have h4: "chunks air1 (chunkOf (15, 31, 15)) \<noteq> None" by code_simp
  have h5: "newSection ex_env2 (sectionOf (15, 31, 15)) \<noteq> None" by (simp add: ex_env2_def)
  have h6: "blockAt air1 (15, 31, 15) = None" by code_simp
  have h7: "chunks air1 (1, 0) = None" by code_simp
  have e: "enumerated (sourceSelection ?a) (dims ?st (sourceDim ?a)) (0, 0, 0)"
    and b: "blockAt (dims ?st (sourceDim ?a)) (0, 0, 0) \<noteq> None"
    and t: "touched (sourceSelection ?a) (0, 0, 0)"
    and k: "chunks (dims ?st (destDim ?a)) (chunkOf (15, 31, 15)) \<noteq> None"
    using h1 h2 h3 h4 by (simp_all add: a d del: One_nat_def)
  from C10_sections_created[OF ne a(3) run q e b t k h5, of "(1, 0)"] h7
  have c: "blockAt (dims (snd ?r) 0) (15, 31, 15) \<noteq> None" "chunks (dims (snd ?r) 0) (1, 0) = None"
    by (simp_all add: a d del: One_nat_def)
  from ne a(3) s h1 h2 h3 h4 h5 h6 c h7 show ?thesis by blast
qed


end
